theory Spec2Isabelle
  imports Main "HOL-Library.Sublist"
begin

section \<open>The script as data\<close>

text \<open>
  The repository is one Python script, \<^verbatim>\<open>exercises/code/python/05_complex_types.py\<close>:
  a straight line of imports, assignments and expression statements that call a
  dataframe engine. The script is transcribed statement by statement into a small
  abstract syntax, and given meaning by an evaluator that is parametric in the engine.
\<close>

datatype expr =
    Name string
  | Str string
  | Num int
  | Const bool
  | Attr expr string
  | Subscript expr expr
  | Add expr expr
  | Kw string expr
  | Call expr "expr list"

datatype stmt =
    ImportFrom string "string list"
  | ImportAs string string
  | Assign string expr
  | Expr expr

text \<open>Lines 36 to 46, \<^verbatim>\<open>## Setup\<close>.\<close>

definition setup_part :: "stmt list" where
  "setup_part =
   [ImportFrom ''pyspark.sql'' [''SparkSession''],
    ImportAs ''cml.data_v1'' ''cmldata'',
    ImportFrom ''env'' [''S3_ROOT'', ''S3_HOME'', ''CONNECTION_NAME''],
    Assign ''conn'' (Call (Attr (Name ''cmldata'') ''get_connection'') [Name ''CONNECTION_NAME'']),
    Assign ''spark'' (Call (Attr (Name ''conn'') ''get_spark_session'') []),
    Assign ''rides'' (Call (Attr (Attr (Name ''spark'') ''read'') ''csv'')
      [Add (Name ''S3_ROOT'') (Str ''/duocar/raw/rides/''),
       Kw ''header'' (Const True), Kw ''inferSchema'' (Const True)]),
    Assign ''drivers'' (Call (Attr (Attr (Name ''spark'') ''read'') ''csv'')
      [Add (Name ''S3_ROOT'') (Str ''/duocar/raw/drivers/''),
       Kw ''header'' (Const True), Kw ''inferSchema'' (Const True)]),
    Assign ''riders'' (Call (Attr (Attr (Name ''spark'') ''read'') ''csv'')
      [Add (Name ''S3_ROOT'') (Str ''/duocar/raw/riders/''),
       Kw ''header'' (Const True), Kw ''inferSchema'' (Const True)])]"

text \<open>Lines 54 to 101, \<^verbatim>\<open>## Arrays\<close>.\<close>

definition arrays_part :: "stmt list" where
  "arrays_part =
   [ImportFrom ''pyspark.sql.functions'' [''array''],
    Assign ''drivers_array''
      (Call (Attr
         (Call (Attr (Name ''drivers'') ''withColumn'')
            [Str ''vehicle_array'',
             Call (Name ''array'') [Str ''vehicle_make'', Str ''vehicle_model'']])
         ''select'')
         [Str ''vehicle_make'', Str ''vehicle_model'', Str ''vehicle_array'']),
    Expr (Call (Attr (Name ''drivers_array'') ''printSchema'') []),
    Expr (Call (Attr (Name ''drivers_array'') ''show'') [Num 5, Const False]),
    ImportFrom ''pyspark.sql.functions'' [''col''],
    Expr (Call (Attr
      (Call (Attr (Name ''drivers_array'') ''select'')
         [Str ''vehicle_array'',
          Subscript (Call (Name ''col'') [Str ''vehicle_array'']) (Num 0)])
      ''show'') [Num 5, Const False]),
    ImportFrom ''pyspark.sql.functions'' [''size''],
    Expr (Call (Attr
      (Call (Attr (Name ''drivers_array'') ''select'')
         [Str ''vehicle_array'', Call (Name ''size'') [Str ''vehicle_array'']])
      ''show'') [Num 5, Const False]),
    ImportFrom ''pyspark.sql.functions'' [''sort_array''],
    Expr (Call (Attr
      (Call (Attr (Name ''drivers_array'') ''select'')
         [Str ''vehicle_array'',
          Call (Name ''sort_array'') [Str ''vehicle_array'', Kw ''asc'' (Const True)]])
      ''show'') [Num 5, Const False]),
    ImportFrom ''pyspark.sql.functions'' [''array_contains''],
    Expr (Call (Attr
      (Call (Attr (Name ''drivers_array'') ''select'')
         [Str ''vehicle_array'',
          Call (Name ''array_contains'') [Str ''vehicle_array'', Str ''Subaru'']])
      ''show'') [Num 5, Const False]),
    ImportFrom ''pyspark.sql.functions'' [''explode'', ''posexplode''],
    Expr (Call (Attr
      (Call (Attr (Name ''drivers_array'') ''select'')
         [Str ''vehicle_array'', Call (Name ''explode'') [Str ''vehicle_array'']])
      ''show'') [Num 5, Const False]),
    Expr (Call (Attr
      (Call (Attr (Name ''drivers_array'') ''select'')
         [Str ''vehicle_array'', Call (Name ''posexplode'') [Str ''vehicle_array'']])
      ''show'') [Num 5, Const False]),
    Expr (Call (Attr
      (Call (Attr (Name ''drivers_array'') ''select'')
         [Str ''vehicle_array'',
          Call (Attr (Call (Name ''posexplode'') [Str ''vehicle_array'']) ''alias'')
            [Str ''position'', Str ''column'']])
      ''show'') [Num 5, Const False])]"

text \<open>Lines 109 to 124, \<^verbatim>\<open>## Maps\<close>.\<close>

definition maps_part :: "stmt list" where
  "maps_part =
   [ImportFrom ''pyspark.sql.functions'' [''lit'', ''create_map''],
    Assign ''drivers_map''
      (Call (Attr
         (Call (Attr (Name ''drivers'') ''withColumn'')
            [Str ''vehicle_map'',
             Call (Name ''create_map'')
               [Call (Name ''lit'') [Str ''make''], Str ''vehicle_make'',
                Call (Name ''lit'') [Str ''model''], Str ''vehicle_model'']])
         ''select'')
         [Str ''vehicle_make'', Str ''vehicle_model'', Str ''vehicle_map'']),
    Expr (Call (Attr (Name ''drivers_map'') ''printSchema'') []),
    Expr (Call (Attr (Name ''drivers_map'') ''show'') [Num 5, Const False]),
    Expr (Call (Attr
      (Call (Attr (Name ''drivers_map'') ''select'')
         [Str ''vehicle_map'', Attr (Call (Name ''col'') [Str ''vehicle_map'']) ''make''])
      ''show'') [Num 5, Const False]),
    Expr (Call (Attr
      (Call (Attr (Name ''drivers_map'') ''select'')
         [Str ''vehicle_map'', Call (Name ''size'') [Str ''vehicle_map'']])
      ''show'') [Num 5, Const False]),
    Expr (Call (Attr
      (Call (Attr (Name ''drivers_map'') ''select'')
         [Str ''vehicle_map'', Call (Name ''explode'') [Str ''vehicle_map'']])
      ''show'') [Num 5, Const False]),
    Expr (Call (Attr
      (Call (Attr (Name ''drivers_map'') ''select'')
         [Str ''vehicle_map'', Call (Name ''posexplode'') [Str ''vehicle_map'']])
      ''show'') [Num 5, Const False])]"

text \<open>Lines 132 to 151, \<^verbatim>\<open>## Structs\<close>.\<close>

definition structs_part :: "stmt list" where
  "structs_part =
   [ImportFrom ''pyspark.sql.functions'' [''struct''],
    Assign ''drivers_struct''
      (Call (Attr
         (Call (Attr (Name ''drivers'') ''withColumn'')
            [Str ''vehicle_struct'',
             Call (Name ''struct'')
               [Call (Attr (Call (Name ''col'') [Str ''vehicle_make'']) ''alias'') [Str ''make''],
                Call (Attr (Call (Name ''col'') [Str ''vehicle_model'']) ''alias'') [Str ''model'']]])
         ''select'')
         [Str ''vehicle_make'', Str ''vehicle_model'', Str ''vehicle_struct'']),
    Expr (Call (Attr (Name ''drivers_struct'') ''printSchema'') []),
    Expr (Call (Attr (Name ''drivers_struct'') ''show'') [Num 5, Const False]),
    Expr (Call (Attr (Name ''drivers_struct'') ''head'') [Num 5]),
    Expr (Call (Attr
      (Call (Attr (Name ''drivers_struct'') ''select'')
         [Str ''vehicle_struct'', Attr (Call (Name ''col'') [Str ''vehicle_struct'']) ''make''])
      ''show'') [Num 5, Const False]),
    ImportFrom ''pyspark.sql.functions'' [''to_json''],
    Expr (Call (Attr
      (Call (Attr (Name ''drivers_struct'') ''select'')
         [Str ''vehicle_struct'', Call (Name ''to_json'') [Str ''vehicle_struct'']])
      ''show'') [Num 5, Const False])]"

text \<open>Line 181, \<^verbatim>\<open>## Cleanup\<close>.\<close>

definition cleanup_part :: "stmt list" where
  "cleanup_part = [Expr (Call (Attr (Name ''spark'') ''stop'') [])]"

definition script :: "stmt list" where
  "script = setup_part @ arrays_part @ maps_part @ structs_part @ cleanup_part"


section \<open>The engine and the values of the script\<close>

text \<open>
  A pyspark \<^verbatim>\<open>Column\<close> is a symbolic expression tree that the script builds and hands
  to the engine: \<^verbatim>\<open>col(name)\<close> and a bare column name are column references,
  \<^verbatim>\<open>lit(v)\<close> and a plain argument are literals, a function of
  \<^verbatim>\<open>pyspark.sql.functions\<close> applied to columns is a \<open>CFn\<close> node, index and dot
  notation extract an element by key, and \<^verbatim>\<open>alias\<close> names the result.
\<close>

datatype literal = LStr string | LInt int | LBool bool

datatype col =
    CName string
  | CLit literal
  | CFn string "col list"
  | CGet col literal
  | CAlias col "string list"

text \<open>
  The engine is external to the repository, so it is a parameter: connections \<open>'c\<close>,
  sessions \<open>'s\<close> and dataframes \<open>'d\<close> are its own types, and every operation may
  answer with a fault (\<open>Inl\<close>, the message of the exception it raises). Dataframes are
  values: an operation on one returns another. The reader is given what the object
  store holds at the path (\<open>None\<close> when nothing is there).
\<close>

record ('c, 's, 'd) engine =
  get_connection :: "string \<Rightarrow> string + 'c"
  get_spark_session :: "'c \<Rightarrow> string + 's"
  read_csv :: "'s \<Rightarrow> string option \<Rightarrow> bool \<Rightarrow> bool \<Rightarrow> string + 'd"
  withColumn :: "'d \<Rightarrow> string \<Rightarrow> col \<Rightarrow> string + 'd"
  select :: "'d \<Rightarrow> col list \<Rightarrow> string + 'd"
  printSchema :: "'d \<Rightarrow> string + string"
  show_rows :: "'d \<Rightarrow> int \<Rightarrow> bool \<Rightarrow> string + string"
  head_rows :: "'d \<Rightarrow> int \<Rightarrow> string + string list"
  write_csv :: "'d \<Rightarrow> string + string"
  stop :: "'s \<Rightarrow> string + unit"

text \<open>
  Module \<^verbatim>\<open>env\<close> of the repository is not among the source files; the three names the
  script imports from it are taken as parameters.
\<close>

record config =
  S3_ROOT :: string
  S3_HOME :: string
  CONNECTION_NAME :: string

datatype ('c, 's, 'd) val =
    VNone
  | VStr string
  | VInt int
  | VBool bool
  | VKw string "('c, 's, 'd) val"
  | VModule string
  | VClass string
  | VFunc string
  | VMethod "('c, 's, 'd) val" string
  | VConn 'c
  | VSession 's
  | VReader 's
  | VDf 'd
  | VWriter 'd
  | VCol col
  | VRows "string list"

datatype error =
    EngineFault string
  | NameError string
  | ImportError string
  | AttributeError string
  | TypeError string

text \<open>The requests the script sends to the engine, as the trace records them.\<close>

datatype request =
    GetConnection string
  | GetSparkSession
  | ReadCsv string bool bool
  | WithColumn string col
  | Select "col list"
  | PrintSchema
  | Show int bool
  | Head int
  | WriteCsv string
  | Stop

text \<open>
  What the script can change outside its own names: the console, the object store,
  the session (stopped or not), and the trace of its requests with their outcomes
  (\<open>None\<close> for an answer, \<open>Some\<close> the fault).
\<close>

record world =
  console :: "string list"
  store :: "string \<rightharpoonup> string"
  stopped :: bool
  trace :: "(request \<times> string option) list"

definition init :: "(string \<rightharpoonup> string) \<Rightarrow> world" where
  "init sto = \<lparr>console = [], store = sto, stopped = False, trace = []\<rparr>"

section \<open>Evaluation\<close>

fun literal_of :: "('c, 's, 'd) val \<Rightarrow> literal option" where
  "literal_of (VStr s) = Some (LStr s)"
| "literal_of (VInt n) = Some (LInt n)"
| "literal_of (VBool b) = Some (LBool b)"
| "literal_of _ = None"

text \<open>Where pyspark expects a column it takes a column name or a \<^verbatim>\<open>Column\<close>.\<close>

fun column_of :: "('c, 's, 'd) val \<Rightarrow> col option" where
  "column_of (VStr s) = Some (CName s)"
| "column_of (VCol c) = Some c"
| "column_of _ = None"

fun columns_of :: "('c, 's, 'd) val list \<Rightarrow> col list option" where
  "columns_of [] = Some []"
| "columns_of (v # vs) =
     (case column_of v of
        None \<Rightarrow> None
      | Some c \<Rightarrow> (case columns_of vs of None \<Rightarrow> None | Some cs \<Rightarrow> Some (c # cs)))"

fun string_of :: "('c, 's, 'd) val \<Rightarrow> string option" where
  "string_of (VStr s) = Some s"
| "string_of _ = None"

fun strings_of :: "('c, 's, 'd) val list \<Rightarrow> string list option" where
  "strings_of [] = Some []"
| "strings_of (v # vs) =
     (case string_of v of
        None \<Rightarrow> None
      | Some s \<Rightarrow> (case strings_of vs of None \<Rightarrow> None | Some ss \<Rightarrow> Some (s # ss)))"

fun int_of :: "('c, 's, 'd) val \<Rightarrow> int option" where
  "int_of (VInt n) = Some n"
| "int_of _ = None"

fun bool_of :: "('c, 's, 'd) val \<Rightarrow> bool option" where
  "bool_of (VBool b) = Some b"
| "bool_of _ = None"

fun the_column :: "('c, 's, 'd) val \<Rightarrow> col option" where
  "the_column (VCol c) = Some c"
| "the_column _ = None"

text \<open>Positional and keyword arguments of a call, and a boolean keyword with its default.\<close>

fun keyword_of :: "('c, 's, 'd) val \<Rightarrow> (string \<times> ('c, 's, 'd) val) option" where
  "keyword_of (VKw k v) = Some (k, v)"
| "keyword_of _ = None"

fun positional :: "('c, 's, 'd) val list \<Rightarrow> ('c, 's, 'd) val list" where
  "positional [] = []"
| "positional (v # vs) = (case keyword_of v of None \<Rightarrow> v # positional vs | Some kv \<Rightarrow> positional vs)"

fun keyword :: "string \<Rightarrow> ('c, 's, 'd) val list \<Rightarrow> ('c, 's, 'd) val option" where
  "keyword k [] = None"
| "keyword k (v # vs) =
     (case keyword_of v of
        None \<Rightarrow> keyword k vs
      | Some kv \<Rightarrow> if fst kv = k then Some (snd kv) else keyword k vs)"

definition flag :: "bool \<Rightarrow> ('c, 's, 'd) val option \<Rightarrow> bool option" where
  "flag dflt v = (case v of None \<Rightarrow> Some dflt | Some b \<Rightarrow> bool_of b)"

text \<open>An optional positional argument: absent it is the default, present it must convert.\<close>

fun optional :: "'a \<Rightarrow> (('c, 's, 'd) val \<Rightarrow> 'a option) \<Rightarrow> ('c, 's, 'd) val list \<Rightarrow> 'a option" where
  "optional dflt conv [] = Some dflt"
| "optional dflt conv [v] = conv v"
| "optional dflt conv (v # u # vs) = None"

text \<open>
  The functions of \<^verbatim>\<open>pyspark.sql.functions\<close> that the model knows. Each builds a
  column expression and touches nothing else.
\<close>

definition functions_library :: "string list" where
  "functions_library =
   [''col'', ''lit'', ''array'', ''create_map'', ''struct'', ''size'', ''explode'',
    ''posexplode'', ''to_json'', ''sort_array'', ''array_contains'']"

definition fn_col :: "('c, 's, 'd) val list \<Rightarrow> error + ('c, 's, 'd) val" where
  "fn_col args =
    (case map string_of args of
       [Some s] \<Rightarrow> Inr (VCol (CName s))
     | _ \<Rightarrow> Inl (TypeError ''col''))"

definition fn_lit :: "('c, 's, 'd) val list \<Rightarrow> error + ('c, 's, 'd) val" where
  "fn_lit args =
    (case map literal_of args of
       [Some l] \<Rightarrow> Inr (VCol (CLit l))
     | _ \<Rightarrow> Inl (TypeError ''lit''))"

text \<open>\<^verbatim>\<open>array\<close>, \<^verbatim>\<open>create_map\<close> and \<^verbatim>\<open>struct\<close> take any number of columns.\<close>

definition fn_columns :: "string \<Rightarrow> ('c, 's, 'd) val list \<Rightarrow> error + ('c, 's, 'd) val" where
  "fn_columns f args =
    (case columns_of args of
       Some cs \<Rightarrow> Inr (VCol (CFn f cs))
     | None \<Rightarrow> Inl (TypeError f))"

text \<open>\<^verbatim>\<open>size\<close>, \<^verbatim>\<open>explode\<close>, \<^verbatim>\<open>posexplode\<close> and \<^verbatim>\<open>to_json\<close> take one column.\<close>

definition fn_column :: "string \<Rightarrow> ('c, 's, 'd) val list \<Rightarrow> error + ('c, 's, 'd) val" where
  "fn_column f args =
    (case map column_of args of
       [Some c] \<Rightarrow> Inr (VCol (CFn f [c]))
     | _ \<Rightarrow> Inl (TypeError f))"

definition fn_sort_array :: "('c, 's, 'd) val list \<Rightarrow> error + ('c, 's, 'd) val" where
  "fn_sort_array args =
    (case (map column_of (positional args), flag True (keyword ''asc'' args)) of
       ([Some c], Some asc) \<Rightarrow> Inr (VCol (CFn ''sort_array'' [c, CLit (LBool asc)]))
     | _ \<Rightarrow> Inl (TypeError ''sort_array''))"

definition fn_array_contains :: "('c, 's, 'd) val list \<Rightarrow> error + ('c, 's, 'd) val" where
  "fn_array_contains args =
    (case (map column_of (take 1 args), map literal_of (drop 1 args)) of
       ([Some c], [Some l]) \<Rightarrow> Inr (VCol (CFn ''array_contains'' [c, CLit l]))
     | _ \<Rightarrow> Inl (TypeError ''array_contains''))"

definition call_function :: "string \<Rightarrow> ('c, 's, 'd) val list \<Rightarrow> error + ('c, 's, 'd) val" where
  "call_function f args =
    (if f = ''col'' then fn_col args
     else if f = ''lit'' then fn_lit args
     else if f \<in> set [''array'', ''create_map'', ''struct''] then fn_columns f args
     else if f \<in> set [''size'', ''explode'', ''posexplode'', ''to_json''] then fn_column f args
     else if f = ''sort_array'' then fn_sort_array args
     else if f = ''array_contains'' then fn_array_contains args
     else Inl (TypeError f))"

text \<open>
  Attribute access. A method name gives the bound method; \<^verbatim>\<open>spark.read\<close> and
  \<^verbatim>\<open>df.write\<close> give the reader and the writer; on a \<^verbatim>\<open>Column\<close> any other name is
  dot notation for the element with that key.
\<close>

definition get_attr :: "('c, 's, 'd) val \<Rightarrow> string \<Rightarrow> error + ('c, 's, 'd) val" where
  "get_attr v a =
    (case v of
       VModule m \<Rightarrow>
         if m = ''cml.data_v1'' \<and> a = ''get_connection'' then Inr (VMethod v a)
         else Inl (AttributeError a)
     | VConn c \<Rightarrow>
         if a = ''get_spark_session'' then Inr (VMethod v a) else Inl (AttributeError a)
     | VSession s \<Rightarrow>
         if a = ''read'' then Inr (VReader s)
         else if a = ''stop'' then Inr (VMethod v a)
         else Inl (AttributeError a)
     | VReader s \<Rightarrow> if a = ''csv'' then Inr (VMethod v a) else Inl (AttributeError a)
     | VDf d \<Rightarrow>
         if a = ''write'' then Inr (VWriter d)
         else if a \<in> set [''withColumn'', ''select'', ''printSchema'', ''show'', ''head'']
         then Inr (VMethod v a)
         else Inl (AttributeError a)
     | VWriter d \<Rightarrow> if a = ''csv'' then Inr (VMethod v a) else Inl (AttributeError a)
     | VCol c \<Rightarrow> if a = ''alias'' then Inr (VMethod v a) else Inr (VCol (CGet c (LStr a)))
     | _ \<Rightarrow> Inl (AttributeError a))"

definition get_item :: "('c, 's, 'd) val \<Rightarrow> ('c, 's, 'd) val \<Rightarrow> error + ('c, 's, 'd) val" where
  "get_item v k =
    (case (the_column v, literal_of k) of
       (Some c, Some l) \<Rightarrow> Inr (VCol (CGet c l))
     | _ \<Rightarrow> Inl (TypeError ''subscript''))"

definition py_add :: "('c, 's, 'd) val \<Rightarrow> ('c, 's, 'd) val \<Rightarrow> error + ('c, 's, 'd) val" where
  "py_add a b =
    (case (string_of a, string_of b) of
       (Some x, Some y) \<Rightarrow> Inr (VStr (x @ y))
     | _ \<Rightarrow>
        (case (int_of a, int_of b) of
           (Some x, Some y) \<Rightarrow> Inr (VInt (x + y))
         | _ \<Rightarrow> Inl (TypeError ''+'')))"

text \<open>
  Sequencing: the first exception ends the evaluation. A request to the engine is
  recorded in the trace with its outcome, and a fault becomes the exception of the call.
\<close>

definition and_then ::
  "(error + 'a) \<times> world \<Rightarrow> ('a \<Rightarrow> world \<Rightarrow> (error + 'b) \<times> world) \<Rightarrow> (error + 'b) \<times> world" where
  "and_then r k = (case r of (Inl x, w) \<Rightarrow> (Inl x, w) | (Inr v, w) \<Rightarrow> k v w)"

definition engine_call :: "request \<Rightarrow> string + 'a \<Rightarrow> world \<Rightarrow> (error + 'a) \<times> world" where
  "engine_call rq answer w =
    (case answer of
       Inl fault \<Rightarrow> (Inl (EngineFault fault), w\<lparr>trace := trace w @ [(rq, Some fault)]\<rparr>)
     | Inr x \<Rightarrow> (Inr x, w\<lparr>trace := trace w @ [(rq, None)]\<rparr>))"

text \<open>The methods of the engine's objects that the model knows, one definition each.\<close>

definition method_get_connection ::
  "('c, 's, 'd) engine \<Rightarrow> ('c, 's, 'd) val list \<Rightarrow> world \<Rightarrow> (error + ('c, 's, 'd) val) \<times> world" where
  "method_get_connection eng args w =
    (case map string_of args of
       [Some n] \<Rightarrow>
         and_then (engine_call (GetConnection n) (get_connection eng n) w)
           (\<lambda>c w1. (Inr (VConn c), w1))
     | _ \<Rightarrow> (Inl (TypeError ''get_connection''), w))"

definition method_get_spark_session ::
  "('c, 's, 'd) engine \<Rightarrow> 'c \<Rightarrow> ('c, 's, 'd) val list \<Rightarrow> world \<Rightarrow>
   (error + ('c, 's, 'd) val) \<times> world" where
  "method_get_spark_session eng c args w =
    (case args of
       [] \<Rightarrow>
         and_then (engine_call GetSparkSession (get_spark_session eng c) w)
           (\<lambda>s w1. (Inr (VSession s), w1))
     | _ \<Rightarrow> (Inl (TypeError ''get_spark_session''), w))"

text \<open>\<^verbatim>\<open>spark.read.csv(path, header=..., inferSchema=...)\<close>; both options default to false.\<close>

definition method_csv ::
  "('c, 's, 'd) engine \<Rightarrow> 's \<Rightarrow> ('c, 's, 'd) val list \<Rightarrow> world \<Rightarrow>
   (error + ('c, 's, 'd) val) \<times> world" where
  "method_csv eng s args w =
    (case (map string_of (positional args), flag False (keyword ''header'' args),
           flag False (keyword ''inferSchema'' args)) of
       ([Some p], Some h, Some i) \<Rightarrow>
         and_then (engine_call (ReadCsv p h i) (read_csv eng s (store w p) h i) w)
           (\<lambda>d w1. (Inr (VDf d), w1))
     | _ \<Rightarrow> (Inl (TypeError ''csv''), w))"

definition method_stop ::
  "('c, 's, 'd) engine \<Rightarrow> 's \<Rightarrow> ('c, 's, 'd) val list \<Rightarrow> world \<Rightarrow>
   (error + ('c, 's, 'd) val) \<times> world" where
  "method_stop eng s args w =
    (case args of
       [] \<Rightarrow>
         and_then (engine_call Stop (stop eng s) w)
           (\<lambda>u w1. (Inr VNone, w1\<lparr>stopped := True\<rparr>))
     | _ \<Rightarrow> (Inl (TypeError ''stop''), w))"

definition method_withColumn ::
  "('c, 's, 'd) engine \<Rightarrow> 'd \<Rightarrow> ('c, 's, 'd) val list \<Rightarrow> world \<Rightarrow>
   (error + ('c, 's, 'd) val) \<times> world" where
  "method_withColumn eng d args w =
    (case (map string_of (take 1 args), map the_column (drop 1 args)) of
       ([Some n], [Some c]) \<Rightarrow>
         and_then (engine_call (WithColumn n c) (withColumn eng d n c) w)
           (\<lambda>d1 w1. (Inr (VDf d1), w1))
     | _ \<Rightarrow> (Inl (TypeError ''withColumn''), w))"

definition method_select ::
  "('c, 's, 'd) engine \<Rightarrow> 'd \<Rightarrow> ('c, 's, 'd) val list \<Rightarrow> world \<Rightarrow>
   (error + ('c, 's, 'd) val) \<times> world" where
  "method_select eng d args w =
    (case columns_of args of
       Some cs \<Rightarrow>
         and_then (engine_call (Select cs) (select eng d cs) w)
           (\<lambda>d1 w1. (Inr (VDf d1), w1))
     | None \<Rightarrow> (Inl (TypeError ''select''), w))"

definition method_printSchema ::
  "('c, 's, 'd) engine \<Rightarrow> 'd \<Rightarrow> ('c, 's, 'd) val list \<Rightarrow> world \<Rightarrow>
   (error + ('c, 's, 'd) val) \<times> world" where
  "method_printSchema eng d args w =
    (case args of
       [] \<Rightarrow>
         and_then (engine_call PrintSchema (printSchema eng d) w)
           (\<lambda>text w1. (Inr VNone, w1\<lparr>console := console w1 @ [text]\<rparr>))
     | _ \<Rightarrow> (Inl (TypeError ''printSchema''), w))"

text \<open>\<^verbatim>\<open>df.show(n=20, truncate=True)\<close>.\<close>

definition method_show ::
  "('c, 's, 'd) engine \<Rightarrow> 'd \<Rightarrow> ('c, 's, 'd) val list \<Rightarrow> world \<Rightarrow>
   (error + ('c, 's, 'd) val) \<times> world" where
  "method_show eng d args w =
    (case (optional 20 int_of (take 1 args), optional True bool_of (drop 1 args)) of
       (Some n, Some t) \<Rightarrow>
         and_then (engine_call (Show n t) (show_rows eng d n t) w)
           (\<lambda>text w1. (Inr VNone, w1\<lparr>console := console w1 @ [text]\<rparr>))
     | _ \<Rightarrow> (Inl (TypeError ''show''), w))"

text \<open>\<^verbatim>\<open>df.head(n)\<close> returns the rows to the script and prints nothing.\<close>

definition method_head ::
  "('c, 's, 'd) engine \<Rightarrow> 'd \<Rightarrow> ('c, 's, 'd) val list \<Rightarrow> world \<Rightarrow>
   (error + ('c, 's, 'd) val) \<times> world" where
  "method_head eng d args w =
    (case map int_of args of
       [Some n] \<Rightarrow>
         and_then (engine_call (Head n) (head_rows eng d n) w)
           (\<lambda>rows w1. (Inr (VRows rows), w1))
     | _ \<Rightarrow> (Inl (TypeError ''head''), w))"

text \<open>\<^verbatim>\<open>df.write.csv(path)\<close>, the one operation of the model that changes the store.\<close>

definition method_write_csv ::
  "('c, 's, 'd) engine \<Rightarrow> 'd \<Rightarrow> ('c, 's, 'd) val list \<Rightarrow> world \<Rightarrow>
   (error + ('c, 's, 'd) val) \<times> world" where
  "method_write_csv eng d args w =
    (case map string_of args of
       [Some p] \<Rightarrow>
         and_then (engine_call (WriteCsv p) (write_csv eng d) w)
           (\<lambda>text w1. (Inr VNone, w1\<lparr>store := (store w1)(p \<mapsto> text)\<rparr>))
     | _ \<Rightarrow> (Inl (TypeError ''csv''), w))"

definition method_alias ::
  "col \<Rightarrow> ('c, 's, 'd) val list \<Rightarrow> world \<Rightarrow> (error + ('c, 's, 'd) val) \<times> world" where
  "method_alias c args w =
    (case strings_of args of
       Some names \<Rightarrow> (Inr (VCol (CAlias c names)), w)
     | None \<Rightarrow> (Inl (TypeError ''alias''), w))"

definition dataframe_method ::
  "('c, 's, 'd) engine \<Rightarrow> 'd \<Rightarrow> string \<Rightarrow> ('c, 's, 'd) val list \<Rightarrow> world \<Rightarrow>
   (error + ('c, 's, 'd) val) \<times> world" where
  "dataframe_method eng d m args w =
    (if m = ''withColumn'' then method_withColumn eng d args w
     else if m = ''select'' then method_select eng d args w
     else if m = ''printSchema'' then method_printSchema eng d args w
     else if m = ''show'' then method_show eng d args w
     else if m = ''head'' then method_head eng d args w
     else (Inl (AttributeError m), w))"

text \<open>
  A bound method is made by attribute access (\<open>get_attr\<close>), which has checked the name
  against the receiver; the call dispatches on the receiver.
\<close>

definition call_method ::
  "('c, 's, 'd) engine \<Rightarrow> ('c, 's, 'd) val \<Rightarrow> string \<Rightarrow> ('c, 's, 'd) val list \<Rightarrow> world \<Rightarrow>
   (error + ('c, 's, 'd) val) \<times> world" where
  "call_method eng recv m args w =
    (case recv of
       VModule mo \<Rightarrow> method_get_connection eng args w
     | VConn c \<Rightarrow> method_get_spark_session eng c args w
     | VReader s \<Rightarrow> method_csv eng s args w
     | VSession s \<Rightarrow> method_stop eng s args w
     | VDf d \<Rightarrow> dataframe_method eng d m args w
     | VWriter d \<Rightarrow> method_write_csv eng d args w
     | VCol c \<Rightarrow> method_alias c args w
     | _ \<Rightarrow> (Inl (TypeError m), w))"

definition apply_val ::
  "('c, 's, 'd) engine \<Rightarrow> ('c, 's, 'd) val \<Rightarrow> ('c, 's, 'd) val list \<Rightarrow> world \<Rightarrow>
   (error + ('c, 's, 'd) val) \<times> world" where
  "apply_val eng f args w =
    (case f of
       VMethod recv m \<Rightarrow> call_method eng recv m args w
     | VFunc name \<Rightarrow> (call_function name args, w)
     | _ \<Rightarrow> (Inl (TypeError ''not callable''), w))"

text \<open>
  Expressions are evaluated as Python does: the callee, then the arguments from left
  to right, then the call. Evaluation reads the names of the script and never binds one.
\<close>

fun eval ::
  "('c, 's, 'd) engine \<Rightarrow> (string \<rightharpoonup> ('c, 's, 'd) val) \<Rightarrow> expr \<Rightarrow> world \<Rightarrow>
   (error + ('c, 's, 'd) val) \<times> world"
and eval_args ::
  "('c, 's, 'd) engine \<Rightarrow> (string \<rightharpoonup> ('c, 's, 'd) val) \<Rightarrow> expr list \<Rightarrow> world \<Rightarrow>
   (error + ('c, 's, 'd) val list) \<times> world"
where
  "eval eng env (Name x) w =
     (case env x of None \<Rightarrow> (Inl (NameError x), w) | Some v \<Rightarrow> (Inr v, w))"
| "eval eng env (Str s) w = (Inr (VStr s), w)"
| "eval eng env (Num n) w = (Inr (VInt n), w)"
| "eval eng env (Const b) w = (Inr (VBool b), w)"
| "eval eng env (Attr e a) w =
     and_then (eval eng env e w) (\<lambda>v w1. (get_attr v a, w1))"
| "eval eng env (Subscript e i) w =
     and_then (eval eng env e w) (\<lambda>v w1.
     and_then (eval eng env i w1) (\<lambda>k w2. (get_item v k, w2)))"
| "eval eng env (Add a b) w =
     and_then (eval eng env a w) (\<lambda>v w1.
     and_then (eval eng env b w1) (\<lambda>u w2. (py_add v u, w2)))"
| "eval eng env (Kw k e) w =
     and_then (eval eng env e w) (\<lambda>v w1. (Inr (VKw k v), w1))"
| "eval eng env (Call f args) w =
     and_then (eval eng env f w) (\<lambda>fv w1.
     and_then (eval_args eng env args w1) (\<lambda>vs w2. apply_val eng fv vs w2))"
| "eval_args eng env [] w = (Inr [], w)"
| "eval_args eng env (e # es) w =
     and_then (eval eng env e w) (\<lambda>v w1.
     and_then (eval_args eng env es w1) (\<lambda>vs w2. (Inr (v # vs), w2)))"

section \<open>Statements and the run of the script\<close>

definition module_member :: "config \<Rightarrow> string \<Rightarrow> string \<Rightarrow> ('c, 's, 'd) val option" where
  "module_member cfg m n =
    (if m = ''env'' then
       (if n = ''S3_ROOT'' then Some (VStr (S3_ROOT cfg))
        else if n = ''S3_HOME'' then Some (VStr (S3_HOME cfg))
        else if n = ''CONNECTION_NAME'' then Some (VStr (CONNECTION_NAME cfg))
        else None)
     else if m = ''pyspark.sql'' then
       (if n = ''SparkSession'' then Some (VClass n) else None)
     else if m = ''pyspark.sql.functions'' then
       (if n \<in> set functions_library then Some (VFunc n) else None)
     else None)"

text \<open>The names of an import are bound one after the other, up to the first that is missing.\<close>

fun import_from ::
  "config \<Rightarrow> string \<Rightarrow> string list \<Rightarrow> (string \<rightharpoonup> ('c, 's, 'd) val) \<Rightarrow>
   error + (string \<rightharpoonup> ('c, 's, 'd) val)" where
  "import_from cfg m [] env = Inr env"
| "import_from cfg m (n # ns) env =
     (case module_member cfg m n of
        None \<Rightarrow> Inl (ImportError n)
      | Some v \<Rightarrow> import_from cfg m ns (env(n \<mapsto> v)))"

text \<open>
  A statement either raises (\<open>Inl\<close> the exception) or completes (\<open>Inr\<close> the names of
  the script after it); the world it leaves is returned in both cases. An expression
  statement drops its value.
\<close>

fun exec ::
  "config \<Rightarrow> ('c, 's, 'd) engine \<Rightarrow> stmt \<Rightarrow> (string \<rightharpoonup> ('c, 's, 'd) val) \<Rightarrow> world \<Rightarrow>
   (error + (string \<rightharpoonup> ('c, 's, 'd) val)) \<times> world" where
  "exec cfg eng (ImportFrom m ns) env w = (import_from cfg m ns env, w)"
| "exec cfg eng (ImportAs m a) env w =
     (if m = ''cml.data_v1'' then (Inr (env(a \<mapsto> VModule m)), w)
      else (Inl (ImportError m), w))"
| "exec cfg eng (Assign x e) env w =
     and_then (eval eng env e w) (\<lambda>v w1. (Inr (env(x \<mapsto> v)), w1))"
| "exec cfg eng (Expr e) env w =
     and_then (eval eng env e w) (\<lambda>v w1. (Inr env, w1))"

text \<open>
  The statements of a module run in order. Nothing in the script catches an exception,
  so the first one ends the run and is its result.
\<close>

fun exec_all ::
  "config \<Rightarrow> ('c, 's, 'd) engine \<Rightarrow> stmt list \<Rightarrow> (string \<rightharpoonup> ('c, 's, 'd) val) \<Rightarrow> world \<Rightarrow>
   (error + (string \<rightharpoonup> ('c, 's, 'd) val)) \<times> world" where
  "exec_all cfg eng [] env w = (Inr env, w)"
| "exec_all cfg eng (s # ss) env w =
     and_then (exec cfg eng s env w) (\<lambda>env1 w1. exec_all cfg eng ss env1 w1)"

definition run ::
  "config \<Rightarrow> ('c, 's, 'd) engine \<Rightarrow> (string \<rightharpoonup> string) \<Rightarrow>
   (error + (string \<rightharpoonup> ('c, 's, 'd) val)) \<times> world" where
  "run cfg eng sto = exec_all cfg eng script Map.empty (init sto)"

section \<open>Static readings of the script\<close>

text \<open>The names an expression reads, and the names a statement reads and binds.\<close>

fun names :: "expr \<Rightarrow> string list" and names_list :: "expr list \<Rightarrow> string list" where
  "names (Name x) = [x]"
| "names (Str s) = []"
| "names (Num n) = []"
| "names (Const b) = []"
| "names (Attr e a) = names e"
| "names (Subscript e i) = names e @ names i"
| "names (Add a b) = names a @ names b"
| "names (Kw k e) = names e"
| "names (Call f args) = names f @ names_list args"
| "names_list [] = []"
| "names_list (e # es) = names e @ names_list es"

fun reads_names :: "stmt \<Rightarrow> string list" where
  "reads_names (ImportFrom m ns) = []"
| "reads_names (ImportAs m a) = []"
| "reads_names (Assign x e) = names e"
| "reads_names (Expr e) = names e"

fun binds :: "stmt \<Rightarrow> string list" where
  "binds (ImportFrom m ns) = ns"
| "binds (ImportAs m a) = [a]"
| "binds (Assign x e) = [x]"
| "binds (Expr e) = []"

text \<open>The attribute names of an expression, and the argument lists of its calls of a method.\<close>

fun attrs :: "expr \<Rightarrow> string list" and attrs_list :: "expr list \<Rightarrow> string list" where
  "attrs (Name x) = []"
| "attrs (Str s) = []"
| "attrs (Num n) = []"
| "attrs (Const b) = []"
| "attrs (Attr e a) = a # attrs e"
| "attrs (Subscript e i) = attrs e @ attrs i"
| "attrs (Add a b) = attrs a @ attrs b"
| "attrs (Kw k e) = attrs e"
| "attrs (Call f args) = attrs f @ attrs_list args"
| "attrs_list [] = []"
| "attrs_list (e # es) = attrs e @ attrs_list es"

fun method_name :: "expr \<Rightarrow> string option" where
  "method_name (Attr e a) = Some a"
| "method_name e = None"

fun calls :: "string \<Rightarrow> expr \<Rightarrow> expr list list"
and calls_list :: "string \<Rightarrow> expr list \<Rightarrow> expr list list" where
  "calls m (Name x) = []"
| "calls m (Str s) = []"
| "calls m (Num n) = []"
| "calls m (Const b) = []"
| "calls m (Attr e a) = calls m e"
| "calls m (Subscript e i) = calls m e @ calls m i"
| "calls m (Add a b) = calls m a @ calls m b"
| "calls m (Kw k e) = calls m e"
| "calls m (Call f args) =
     (if method_name f = Some m then [args] else []) @ calls m f @ calls_list m args"
| "calls_list m [] = []"
| "calls_list m (e # es) = calls m e @ calls_list m es"

fun exprs_of :: "stmt \<Rightarrow> expr list" where
  "exprs_of (ImportFrom m ns) = []"
| "exprs_of (ImportAs m a) = []"
| "exprs_of (Assign x e) = [e]"
| "exprs_of (Expr e) = [e]"


section \<open>The requests of a complete run\<close>

text \<open>
  The requests the script sends when the engine answers every one of them, in order.
  Lemma \<open>run_prefix\<close> below shows that every run sends a prefix of this list.
\<close>

definition plan :: "config \<Rightarrow> request list" where
  "plan cfg =
   [GetConnection (CONNECTION_NAME cfg),
    GetSparkSession,
    ReadCsv (S3_ROOT cfg @ ''/duocar/raw/rides/'') True True,
    ReadCsv (S3_ROOT cfg @ ''/duocar/raw/drivers/'') True True,
    ReadCsv (S3_ROOT cfg @ ''/duocar/raw/riders/'') True True,
    WithColumn ''vehicle_array'' (CFn ''array'' [CName ''vehicle_make'', CName ''vehicle_model'']),
    Select [CName ''vehicle_make'', CName ''vehicle_model'', CName ''vehicle_array''],
    PrintSchema,
    Show 5 False,
    Select [CName ''vehicle_array'', CGet (CName ''vehicle_array'') (LInt 0)],
    Show 5 False,
    Select [CName ''vehicle_array'', CFn ''size'' [CName ''vehicle_array'']],
    Show 5 False,
    Select [CName ''vehicle_array'',
            CFn ''sort_array'' [CName ''vehicle_array'', CLit (LBool True)]],
    Show 5 False,
    Select [CName ''vehicle_array'',
            CFn ''array_contains'' [CName ''vehicle_array'', CLit (LStr ''Subaru'')]],
    Show 5 False,
    Select [CName ''vehicle_array'', CFn ''explode'' [CName ''vehicle_array'']],
    Show 5 False,
    Select [CName ''vehicle_array'', CFn ''posexplode'' [CName ''vehicle_array'']],
    Show 5 False,
    Select [CName ''vehicle_array'',
            CAlias (CFn ''posexplode'' [CName ''vehicle_array'']) [''position'', ''column'']],
    Show 5 False,
    WithColumn ''vehicle_map''
      (CFn ''create_map'' [CLit (LStr ''make''), CName ''vehicle_make'',
                           CLit (LStr ''model''), CName ''vehicle_model'']),
    Select [CName ''vehicle_make'', CName ''vehicle_model'', CName ''vehicle_map''],
    PrintSchema,
    Show 5 False,
    Select [CName ''vehicle_map'', CGet (CName ''vehicle_map'') (LStr ''make'')],
    Show 5 False,
    Select [CName ''vehicle_map'', CFn ''size'' [CName ''vehicle_map'']],
    Show 5 False,
    Select [CName ''vehicle_map'', CFn ''explode'' [CName ''vehicle_map'']],
    Show 5 False,
    Select [CName ''vehicle_map'', CFn ''posexplode'' [CName ''vehicle_map'']],
    Show 5 False,
    WithColumn ''vehicle_struct''
      (CFn ''struct'' [CAlias (CName ''vehicle_make'') [''make''],
                       CAlias (CName ''vehicle_model'') [''model'']]),
    Select [CName ''vehicle_make'', CName ''vehicle_model'', CName ''vehicle_struct''],
    PrintSchema,
    Show 5 False,
    Head 5,
    Select [CName ''vehicle_struct'', CGet (CName ''vehicle_struct'') (LStr ''make'')],
    Show 5 False,
    Select [CName ''vehicle_struct'', CFn ''to_json'' [CName ''vehicle_struct'']],
    Show 5 False,
    Stop]"




fun is_load :: "request \<Rightarrow> bool" where
  "is_load (ReadCsv p h i) = True"
| "is_load r = False"

definition loads :: "config \<Rightarrow> request list" where
  "loads cfg =
    map (\<lambda>dir. ReadCsv (S3_ROOT cfg @ dir) True True)
      [''/duocar/raw/rides/'', ''/duocar/raw/drivers/'', ''/duocar/raw/riders/'']"

text \<open>The row counts that the requests for sample rows carry.\<close>

fun row_counts :: "request list \<Rightarrow> int list" where
  "row_counts [] = []"
| "row_counts (Show n t # rs) = n # row_counts rs"
| "row_counts (Head n # rs) = n # row_counts rs"
| "row_counts (r # rs) = row_counts rs"




fun is_write :: "request \<Rightarrow> bool" where
  "is_write (WriteCsv p) = True"
| "is_write r = False"

text \<open>A request that put a line on the console: an answered \<^verbatim>\<open>printSchema\<close> or \<^verbatim>\<open>show\<close>.\<close>

definition prints :: "request \<times> string option \<Rightarrow> bool" where
  "prints e = (case e of (PrintSchema, None) \<Rightarrow> True | (Show n t, None) \<Rightarrow> True | _ \<Rightarrow> False)"

section \<open>Two engines\<close>

text \<open>
  The engine that answers every request with nothing: its run of the script shows
  which requests the script sends.
\<close>

definition blank :: "(unit, unit, unit) engine" where
  "blank = \<lparr>get_connection = (\<lambda>n. Inr ()), get_spark_session = (\<lambda>c. Inr ()),
     read_csv = (\<lambda>s content h i. Inr ()), withColumn = (\<lambda>d n c. Inr ()),
     select = (\<lambda>d cs. Inr ()), printSchema = (\<lambda>d. Inr []), show_rows = (\<lambda>d n t. Inr []),
     head_rows = (\<lambda>d n. Inr []), write_csv = (\<lambda>d. Inr []), stop = (\<lambda>s. Inr ())\<rparr>"

text \<open>
  A small engine to run the script on: a dataframe is the list of its column names, a
  stored dataset is its header line, a missing path and an unknown column are faults.
\<close>

fun split_commas :: "string \<Rightarrow> string list" where
  "split_commas [] = [[]]"
| "split_commas (c # cs) =
     (if c = CHR '','' then [] # split_commas cs
      else (case split_commas cs of [] \<Rightarrow> [[c]] | w # ws \<Rightarrow> (c # w) # ws))"

fun label :: "col \<Rightarrow> string" where
  "label (CName n) = n"
| "label (CLit l) = ''lit''"
| "label (CFn f cs) = f"
| "label (CGet c k) = label c"
| "label (CAlias c ns) = (case ns of [] \<Rightarrow> label c | n # ms \<Rightarrow> n)"

fun refs :: "col \<Rightarrow> string list" where
  "refs (CName n) = [n]"
| "refs (CLit l) = []"
| "refs (CFn f cs) = concat (map refs cs)"
| "refs (CGet c k) = refs c"
| "refs (CAlias c ns) = refs c"

definition toy :: "(unit, unit, string list) engine" where
  "toy = \<lparr>
     get_connection = (\<lambda>n. if n = [] then Inl ''no such connection'' else Inr ()),
     get_spark_session = (\<lambda>c. Inr ()),
     read_csv = (\<lambda>s content h i.
        case content of
          None \<Rightarrow> Inl ''Path does not exist''
        | Some text \<Rightarrow> Inr (split_commas text)),
     withColumn = (\<lambda>d n c.
        if list_all (\<lambda>r. r \<in> set d) (refs c) then Inr (d @ [n])
        else Inl ''cannot resolve column''),
     select = (\<lambda>d cs.
        if list_all (\<lambda>r. r \<in> set d) (concat (map refs cs)) then Inr (map label cs)
        else Inl ''cannot resolve column''),
     printSchema = (\<lambda>d. Inr (concat (map (\<lambda>n. '' |-- '' @ n) d))),
     show_rows = (\<lambda>d n t. Inr (concat (map (\<lambda>n. ''|'' @ n) d))),
     head_rows = (\<lambda>d n. Inr []),
     write_csv = (\<lambda>d. Inr (concat (map (\<lambda>n. n @ '','') d))),
     stop = (\<lambda>s. Inr ())\<rparr>"

definition toy_cfg :: config where
  "toy_cfg = \<lparr>S3_ROOT = ''s3a://b'', S3_HOME = ''s3a://b/home'', CONNECTION_NAME = ''dl''\<rparr>"

definition toy_store :: "string \<rightharpoonup> string" where
  "toy_store =
    [''s3a://b/duocar/raw/rides/'' \<mapsto> ''id,driver_id'',
     ''s3a://b/duocar/raw/drivers/'' \<mapsto> ''id,vehicle_make,vehicle_model'',
     ''s3a://b/duocar/raw/riders/'' \<mapsto> ''id,first_name'']"

section \<open>Notions used in the proofs\<close>

text \<open>
  What one step of evaluation may do to the world, as a function of the requests
  \<open>new\<close> it adds to the trace: it stops the session exactly by an answered \<open>Stop\<close>,
  changes the store only by an answered \<open>WriteCsv\<close>, and prints one line per answered
  \<open>PrintSchema\<close> or \<open>Show\<close>.
\<close>

definition effects :: "world \<Rightarrow> world \<Rightarrow> (request \<times> string option) list \<Rightarrow> bool" where
  "effects w w' new \<longleftrightarrow>
     trace w' = trace w @ new \<and>
     stopped w' = (stopped w \<or> (Stop, None) \<in> set new) \<and>
     ((\<forall>p. (WriteCsv p, None) \<notin> set new) \<longrightarrow> store w' = store w) \<and>
     length (console w') = length (console w) + length (filter prints new)"

text \<open>
  The discipline of faults: a step that raises an engine fault has asked the faulting
  request last, and every request before it was answered; any other step had all its
  requests answered.
\<close>

definition disciplined :: "error + 'a \<Rightarrow> (request \<times> string option) list \<Rightarrow> bool" where
  "disciplined r new =
     (case r of
        Inl (EngineFault f) \<Rightarrow>
          new \<noteq> [] \<and> snd (last new) = Some f \<and> list_all (\<lambda>e. snd e = None) (butlast new)
      | _ \<Rightarrow> list_all (\<lambda>e. snd e = None) new)"

definition step_ok :: "world \<Rightarrow> (error + 'a) \<times> world \<Rightarrow> bool" where
  "step_ok w c \<longleftrightarrow> (\<exists>new. effects w (snd c) new \<and> disciplined (fst c) new)"

definition pure_result :: "error + 'a \<Rightarrow> bool" where
  "pure_result r = (case r of Inl (EngineFault f) \<Rightarrow> False | _ \<Rightarrow> True)"

definition reqs :: "world \<Rightarrow> request list" where
  "reqs w = map fst (trace w)"

text \<open>
  Erasure forgets what the engine answered. A run on any engine is simulated by the
  run on \<open>blank\<close> of the erased names: as long as the engine answers, the two send the
  same requests and hold the same values up to erasure.
\<close>

primrec erase :: "('c, 's, 'd) val \<Rightarrow> (unit, unit, unit) val" where
  "erase VNone = VNone"
| "erase (VStr s) = VStr s"
| "erase (VInt n) = VInt n"
| "erase (VBool b) = VBool b"
| "erase (VKw k v) = VKw k (erase v)"
| "erase (VModule m) = VModule m"
| "erase (VClass cn) = VClass cn"
| "erase (VFunc f) = VFunc f"
| "erase (VMethod v m) = VMethod (erase v) m"
| "erase (VConn x) = VConn ()"
| "erase (VSession y) = VSession ()"
| "erase (VReader y) = VReader ()"
| "erase (VDf z) = VDf ()"
| "erase (VWriter z) = VWriter ()"
| "erase (VCol cl) = VCol cl"
| "erase (VRows rs) = VRows []"

definition erase_env ::
  "(string \<rightharpoonup> ('c, 's, 'd) val) \<Rightarrow> (string \<rightharpoonup> (unit, unit, unit) val)" where
  "erase_env env = (\<lambda>x. map_option erase (env x))"

definition sim ::
  "('a \<Rightarrow> 'b \<Rightarrow> bool) \<Rightarrow> (error + 'a) \<times> world \<Rightarrow> (error + 'b) \<times> world \<Rightarrow> bool" where
  "sim R c a =
    (case fst c of
       Inr v \<Rightarrow> (case fst a of Inr u \<Rightarrow> R v u | Inl x \<Rightarrow> False) \<and> reqs (snd a) = reqs (snd c)
     | Inl x \<Rightarrow>
        (case x of
           EngineFault f \<Rightarrow> prefix (reqs (snd c)) (reqs (snd a))
         | _ \<Rightarrow> fst a = Inl x \<and> reqs (snd a) = reqs (snd c)))"

definition grows :: "world \<Rightarrow> (error + 'a) \<times> world \<Rightarrow> bool" where
  "grows w c = prefix (reqs w) (reqs (snd c))"

text \<open>
  Two runs that agree on all names outside \<open>X\<close>, in worlds that differ at most in the
  store, stay so until one of them reads the store.
\<close>

definition agree :: "string set \<Rightarrow> (string \<rightharpoonup> 'v) \<Rightarrow> (string \<rightharpoonup> 'v) \<Rightarrow> bool" where
  "agree X env1 env2 \<longleftrightarrow> (\<forall>x. x \<notin> X \<longrightarrow> env1 x = env2 x)"

definition same_out :: "world \<Rightarrow> world \<Rightarrow> bool" where
  "same_out w1 w2 \<longleftrightarrow> console w1 = console w2 \<and> stopped w1 = stopped w2 \<and> trace w1 = trace w2"

definition ni ::
  "('a \<Rightarrow> 'a \<Rightarrow> bool) \<Rightarrow> world \<Rightarrow> (error + 'a) \<times> world \<Rightarrow> (error + 'a) \<times> world \<Rightarrow> bool" where
  "ni R w c1 c2 \<longleftrightarrow>
     (rel_sum (=) R (fst c1) (fst c2) \<and> same_out (snd c1) (snd c2)) \<or>
     (\<exists>e \<in> set (drop (length (trace w)) (trace (snd c1))). is_load (fst e))"

section \<open>Lemmas\<close>

lemma and_then_Inl [simp]: "and_then (Inl x, w) k = (Inl x, w)"
  by (simp add: and_then_def)

lemma and_then_Inr [simp]: "and_then (Inr v, w) k = k v w"
  by (simp add: and_then_def)

lemma pure_simps [simp]:
  "pure_result (Inr v)"
  "pure_result (Inl (TypeError s))"
  "pure_result (Inl (NameError s))"
  "pure_result (Inl (AttributeError s))"
  "pure_result (Inl (ImportError s))"
  by (simp_all add: pure_result_def)

lemma step_ok_pure: "pure_result r \<Longrightarrow> step_ok w (r, w)"
  unfolding step_ok_def pure_result_def
  by (rule exI[of _ "[]"]) (auto simp: effects_def disciplined_def split: sum.splits error.splits)

lemma step_ok_and_then:
  assumes "step_ok w c" and "\<And>v w1. step_ok w1 (k v w1)"
  shows "step_ok w (and_then c k)"
proof (cases c)
  case (Pair r w1)
  show ?thesis
  proof (cases r)
    case (Inl x)
    with Pair assms(1) show ?thesis by (simp add: step_ok_def disciplined_def)
  next
    case (Inr v)
    from assms(1) Pair Inr obtain new1 where
      1: "effects w w1 new1" "list_all (\<lambda>e. snd e = None) new1"
      by (auto simp: step_ok_def disciplined_def)
    from assms(2)[of w1 v] obtain new2 where
      2: "effects w1 (snd (k v w1)) new2" "disciplined (fst (k v w1)) new2"
      by (auto simp: step_ok_def)
    have "effects w (snd (k v w1)) (new1 @ new2)"
      using 1(1) 2(1) by (auto simp: effects_def)
    moreover have "disciplined (fst (k v w1)) (new1 @ new2)"
      using 1(2) 2(2) by (auto simp: disciplined_def butlast_append split: sum.splits error.splits)
    ultimately show ?thesis using Pair Inr by (auto simp: step_ok_def)
  qed
qed

lemma pure_get_attr: "pure_result (get_attr v a)"
  by (cases v) (simp_all add: get_attr_def)

lemma pure_get_item: "pure_result (get_item v k)"
  by (simp add: get_item_def split: option.split)

lemma pure_py_add: "pure_result (py_add a b)"
  by (simp add: py_add_def split: option.split)

lemma pure_call_function: "pure_result (call_function f args)"
proof -
  have "pure_result (fn_col args :: error + ('a, 'b, 'c) val)"
       "pure_result (fn_lit args :: error + ('a, 'b, 'c) val)"
       "pure_result (fn_columns f args :: error + ('a, 'b, 'c) val)"
       "pure_result (fn_column f args :: error + ('a, 'b, 'c) val)"
       "pure_result (fn_sort_array args :: error + ('a, 'b, 'c) val)"
       "pure_result (fn_array_contains args :: error + ('a, 'b, 'c) val)"
    by (simp_all add: fn_col_def fn_lit_def fn_columns_def fn_column_def fn_sort_array_def
         fn_array_contains_def split: list.split option.split)
  then show ?thesis by (simp add: call_function_def)
qed

lemma step_ok_engine_call:
  assumes "\<And>x. effects (w\<lparr>trace := trace w @ [(rq, None)]\<rparr>) (snd (k x (w\<lparr>trace := trace w @ [(rq, None)]\<rparr>))) []"
      and "\<And>x. pure_result (fst (k x (w\<lparr>trace := trace w @ [(rq, None)]\<rparr>)))"
      and "rq \<noteq> Stop" "\<And>p. rq \<noteq> WriteCsv p" "\<not> prints (rq, None)"
  shows "step_ok w (and_then (engine_call rq answer w) k)"
proof (cases answer)
  case (Inl f)
  then show ?thesis
    unfolding step_ok_def
    by (intro exI[of _ "[(rq, Some f)]"]) 
       (auto simp: engine_call_def effects_def disciplined_def prints_def split: request.splits)
next
  case (Inr x)
  let ?w1 = "w\<lparr>trace := trace w @ [(rq, None)]\<rparr>"
  have "effects w (snd (k x ?w1)) [(rq, None)]"
    using assms(1)[of x] assms(3,4,5) by (auto simp: effects_def)
  moreover have "disciplined (fst (k x ?w1)) [(rq, None)]"
    using assms(2)[of x] by (auto simp: disciplined_def pure_result_def split: sum.splits error.splits)
  ultimately show ?thesis using Inr by (auto simp: step_ok_def engine_call_def)
qed

lemma effects_refl [simp]: "effects w w []"
  by (simp add: effects_def)

lemma step_ok_methods:
  "step_ok w (method_get_connection eng args w)"
  "step_ok w (method_get_spark_session eng c args w)"
  "step_ok w (method_csv eng s args w)"
  "step_ok w (method_withColumn eng d args w)"
  "step_ok w (method_select eng d args w)"
  "step_ok w (method_head eng d args w)"
  "step_ok w (method_alias cl args w)"
  by (auto simp: method_get_connection_def method_get_spark_session_def method_csv_def
        method_withColumn_def method_select_def method_head_def method_alias_def prints_def
        split: list.split option.split intro!: step_ok_engine_call step_ok_pure)

lemma step_ok_stop: "step_ok w (method_stop eng s args w)"
proof (cases "args = []")
  case False
  then show ?thesis by (auto simp: method_stop_def split: list.split intro!: step_ok_pure)
next
  case True
  show ?thesis
  proof (cases "stop eng s")
    case (Inl f)
    then show ?thesis using True unfolding step_ok_def
      by (intro exI[of _ "[(Stop, Some f)]"])
         (auto simp: method_stop_def engine_call_def effects_def disciplined_def prints_def)
  next
    case (Inr u)
    then show ?thesis using True unfolding step_ok_def
      by (intro exI[of _ "[(Stop, None)]"])
         (auto simp: method_stop_def engine_call_def effects_def disciplined_def prints_def)
  qed
qed

lemma step_ok_printSchema: "step_ok w (method_printSchema eng d args w)"
proof (cases "args = []")
  case False
  then show ?thesis by (auto simp: method_printSchema_def split: list.split intro!: step_ok_pure)
next
  case True
  show ?thesis
  proof (cases "printSchema eng d")
    case (Inl f)
    then show ?thesis using True unfolding step_ok_def
      by (intro exI[of _ "[(PrintSchema, Some f)]"])
         (auto simp: method_printSchema_def engine_call_def effects_def disciplined_def prints_def)
  next
    case (Inr u)
    then show ?thesis using True unfolding step_ok_def
      by (intro exI[of _ "[(PrintSchema, None)]"])
         (auto simp: method_printSchema_def engine_call_def effects_def disciplined_def prints_def)
  qed
qed

lemma step_ok_show: "step_ok w (method_show eng d args w)"
proof (cases "optional 20 int_of (take 1 args)")
  case None
  then show ?thesis by (auto simp: method_show_def intro!: step_ok_pure)
next
  case (Some n)
  note n = this
  show ?thesis
  proof (cases "optional True bool_of (drop 1 args)")
    case None
    then show ?thesis using n by (auto simp: method_show_def intro!: step_ok_pure)
  next
    case (Some t)
    show ?thesis
    proof (cases "show_rows eng d n t")
      case (Inl f)
      then show ?thesis using n Some unfolding step_ok_def
        by (intro exI[of _ "[(Show n t, Some f)]"])
           (auto simp: method_show_def engine_call_def effects_def disciplined_def prints_def)
    next
      case (Inr u)
      then show ?thesis using n Some unfolding step_ok_def
        by (intro exI[of _ "[(Show n t, None)]"])
           (auto simp: method_show_def engine_call_def effects_def disciplined_def prints_def)
    qed
  qed
qed

lemma step_ok_write_csv: "step_ok w (method_write_csv eng d args w)"
proof (cases "map string_of args")
  case Nil
  then show ?thesis by (auto simp: method_write_csv_def intro!: step_ok_pure)
next
  case (Cons a as)
  show ?thesis
  proof (cases "\<exists>p. a = Some p \<and> as = []")
    case False
    then show ?thesis using Cons
      by (auto simp: method_write_csv_def split: list.split option.split intro!: step_ok_pure)
  next
    case True
    then obtain p where p: "map string_of args = [Some p]" using Cons by auto
    show ?thesis
    proof (cases "write_csv eng d")
      case (Inl f)
      then show ?thesis using p unfolding step_ok_def
        by (intro exI[of _ "[(WriteCsv p, Some f)]"])
           (auto simp: method_write_csv_def engine_call_def effects_def disciplined_def prints_def)
    next
      case (Inr u)
      then show ?thesis using p unfolding step_ok_def
        by (intro exI[of _ "[(WriteCsv p, None)]"])
           (auto simp: method_write_csv_def engine_call_def effects_def disciplined_def prints_def)
    qed
  qed
qed

lemma step_ok_call_method: "step_ok w (call_method eng recv m args w)"
  by (cases recv)
     (auto simp: call_method_def dataframe_method_def step_ok_methods step_ok_stop
        step_ok_printSchema step_ok_show step_ok_write_csv intro!: step_ok_pure)

lemma step_ok_apply_val: "step_ok w (apply_val eng f args w)"
  by (cases f) (auto simp: apply_val_def step_ok_call_method pure_call_function intro!: step_ok_pure)

lemma step_ok_eval:
  "step_ok w (eval eng env e w)"
  "step_ok w (eval_args eng env es w)"
proof (induction eng env e w and eng env es w rule: eval_eval_args.induct)
qed (auto intro!: step_ok_and_then step_ok_pure step_ok_apply_val
      pure_get_attr pure_get_item pure_py_add split: option.splits)

lemma pure_import_from: "pure_result (import_from cfg m ns env)"
  by (induction ns arbitrary: env) (auto split: option.splits)

lemma step_ok_exec: "step_ok w (exec cfg eng s env w)"
  by (cases s) (auto intro!: step_ok_and_then step_ok_pure step_ok_eval pure_import_from)

lemma step_ok_exec_all: "step_ok w (exec_all cfg eng ss env w)"
  by (induction ss arbitrary: env w) (auto intro!: step_ok_and_then step_ok_pure step_ok_exec)

lemma erase_conv [simp]:
  "literal_of (erase v) = literal_of v"
  "column_of (erase v) = column_of v"
  "string_of (erase v) = string_of v"
  "int_of (erase v) = int_of v"
  "bool_of (erase v) = bool_of v"
  "the_column (erase v) = the_column v"
  "keyword_of (erase v) = map_option (\<lambda>kv. (fst kv, erase (snd kv))) (keyword_of v)"
  by (cases v; simp)+

lemma erase_lists [simp]:
  "columns_of (map erase vs) = columns_of vs"
  "strings_of (map erase vs) = strings_of vs"
  "positional (map erase vs) = map erase (positional vs)"
  "keyword k (map erase vs) = map_option erase (keyword k vs)"
  by (induction vs) (auto split: option.splits)

lemma erase_flag [simp]: "flag b (map_option erase v) = flag b v"
  by (cases v) (simp_all add: flag_def)

lemma erase_optional_gen:
  assumes "\<And>v. conv' (erase v) = conv v"
  shows "optional d conv' (map erase vs) = optional d conv vs"
proof (cases vs)
  case Nil
  then show ?thesis by simp
next
  case (Cons v us)
  then show ?thesis using assms by (cases us) simp_all
qed

lemma erase_optional [simp]:
  "optional n int_of (map erase vs) = optional n int_of vs"
  "optional b bool_of (map erase vs) = optional b bool_of vs"
  by (simp_all add: erase_optional_gen)

lemma erase_fn:
  "fn_col (map erase vs) = map_sum id erase (fn_col vs)"
  "fn_lit (map erase vs) = map_sum id erase (fn_lit vs)"
  "fn_columns f (map erase vs) = map_sum id erase (fn_columns f vs)"
  "fn_column f (map erase vs) = map_sum id erase (fn_column f vs)"
  "fn_sort_array (map erase vs) = map_sum id erase (fn_sort_array vs)"
  "fn_array_contains (map erase vs) = map_sum id erase (fn_array_contains vs)"
  by (simp_all add: fn_col_def fn_lit_def fn_columns_def fn_column_def fn_sort_array_def
        fn_array_contains_def comp_def take_map drop_map split: list.split option.split)

lemma erase_call_function: "call_function f (map erase vs) = map_sum id erase (call_function f vs)"
  by (simp add: call_function_def erase_fn)

lemma erase_get_attr: "get_attr (erase v) a = map_sum id erase (get_attr v a)"
  by (cases v) (simp_all add: get_attr_def)

lemma erase_get_item: "get_item (erase v) (erase k) = map_sum id erase (get_item v k)"
  by (simp add: get_item_def split: option.split)

lemma erase_py_add: "py_add (erase a) (erase b) = map_sum id erase (py_add a b)"
  by (simp add: py_add_def split: option.split)

lemma step_ok_grows: "step_ok w c \<Longrightarrow> grows w c"
  by (auto simp: step_ok_def effects_def grows_def reqs_def)

lemma sim_pure:
  assumes "reqs wa = reqs w" "pure_result r" "ra = map_sum id f r"
  shows "sim (\<lambda>v u. u = f v) (r, w) (ra, wa)"
  using assms by (auto simp: sim_def pure_result_def split: sum.splits error.splits)

lemma sim_and_then:
  assumes "sim R c a"
      and "\<And>v u w1 wa1. R v u \<Longrightarrow> reqs wa1 = reqs w1 \<Longrightarrow> sim R' (k v w1) (ka u wa1)"
      and "\<And>u wa1. grows wa1 (ka u wa1)"
  shows "sim R' (and_then c k) (and_then a ka)"
proof (cases c)
  case (Pair r w)
  obtain ra wa where a: "a = (ra, wa)" by (cases a)
  show ?thesis
  proof (cases r)
    case (Inr v)
    with assms(1) Pair a obtain u where "ra = Inr u" "R v u" "reqs wa = reqs w"
      by (auto simp: sim_def split: sum.splits)
    with assms(2)[of v u wa w] Pair a Inr show ?thesis by simp
  next
    case (Inl x)
    show ?thesis
    proof (cases "\<exists>f. x = EngineFault f")
      case True
      then obtain f where f: "x = EngineFault f" by blast
      with assms(1) Pair a Inl have p: "prefix (reqs w) (reqs wa)" by (simp add: sim_def)
      have "prefix (reqs wa) (reqs (snd (and_then a ka)))"
        using assms(3) a by (cases ra) (auto simp: grows_def)
      with p have "prefix (reqs w) (reqs (snd (and_then a ka)))" by (rule prefix_order.trans)
      with Pair Inl f show ?thesis by (simp add: sim_def)
    next
      case False
      with assms(1) Pair a Inl have "ra = Inl x" "reqs wa = reqs w"
        by (auto simp: sim_def split: error.splits)
      with Pair a Inl False show ?thesis by (auto simp: sim_def split: error.splits)
    qed
  qed
qed

lemma blank_simps [simp]:
  "get_connection blank n = Inr ()" "get_spark_session blank c = Inr ()"
  "read_csv blank s content h i = Inr ()" "withColumn blank d nm cl = Inr ()"
  "select blank d cs = Inr ()" "printSchema blank d = Inr []" "show_rows blank d k t = Inr []"
  "head_rows blank d k = Inr []" "write_csv blank d = Inr []" "stop blank s = Inr ()"
  by (simp_all add: blank_def)

lemma sim_methods:
  assumes "reqs wa = reqs w"
  shows "sim (\<lambda>v u. u = erase v) (method_get_connection eng args w) (method_get_connection blank (map erase args) wa)"
    and "sim (\<lambda>v u. u = erase v) (method_get_spark_session eng c args w) (method_get_spark_session blank () (map erase args) wa)"
    and "sim (\<lambda>v u. u = erase v) (method_csv eng s args w) (method_csv blank () (map erase args) wa)"
    and "sim (\<lambda>v u. u = erase v) (method_stop eng s args w) (method_stop blank () (map erase args) wa)"
    and "sim (\<lambda>v u. u = erase v) (method_withColumn eng d args w) (method_withColumn blank () (map erase args) wa)"
    and "sim (\<lambda>v u. u = erase v) (method_select eng d args w) (method_select blank () (map erase args) wa)"
    and "sim (\<lambda>v u. u = erase v) (method_printSchema eng d args w) (method_printSchema blank () (map erase args) wa)"
    and "sim (\<lambda>v u. u = erase v) (method_show eng d args w) (method_show blank () (map erase args) wa)"
    and "sim (\<lambda>v u. u = erase v) (method_head eng d args w) (method_head blank () (map erase args) wa)"
    and "sim (\<lambda>v u. u = erase v) (method_write_csv eng d args w) (method_write_csv blank () (map erase args) wa)"
    and "sim (\<lambda>v u. u = erase v) (method_alias cl args w) (method_alias cl (map erase args) wa)"
  using assms
  by (auto simp add: method_get_connection_def method_get_spark_session_def method_csv_def
        method_stop_def method_withColumn_def method_select_def method_printSchema_def
        method_show_def method_head_def method_write_csv_def method_alias_def
        engine_call_def sim_def reqs_def take_map drop_map comp_def
        split: list.split option.split sum.split)

lemma sim_call_method:
  assumes "reqs wa = reqs w"
  shows "sim (\<lambda>v u. u = erase v) (call_method eng recv m args w) (call_method blank (erase recv) m (map erase args) wa)"
  using assms
  by (cases recv)
     (simp_all add: call_method_def dataframe_method_def sim_methods, simp_all add: sim_def)

lemma sim_apply_val:
  assumes "reqs wa = reqs w"
  shows "sim (\<lambda>v u. u = erase v) (apply_val eng f args w) (apply_val blank (erase f) (map erase args) wa)"
proof (cases f)
  case (VMethod recv m)
  then show ?thesis using assms by (simp add: apply_val_def sim_call_method)
next
  case (VFunc name)
  then show ?thesis using assms
    by (simp add: apply_val_def erase_call_function sim_pure pure_call_function)
qed (use assms in \<open>simp_all add: apply_val_def sim_def\<close>)

lemma grows_eval:
  "grows w (eval eng env e w)" "grows w (eval_args eng env es w)"
  by (simp_all add: step_ok_grows step_ok_eval)

lemma grows_and_then:
  assumes "grows w c" "\<And>v w1. grows w1 (k v w1)"
  shows "grows w (and_then c k)"
proof (cases c)
  case (Pair r w1)
  show ?thesis
  proof (cases r)
    case (Inl x)
    then show ?thesis using assms(1) Pair by (simp add: grows_def)
  next
    case (Inr v)
    have "prefix (reqs w1) (reqs (snd (k v w1)))" using assms(2) by (simp add: grows_def)
    moreover have "prefix (reqs w) (reqs w1)" using assms(1) Pair by (simp add: grows_def)
    ultimately show ?thesis using Pair Inr by (auto simp: grows_def)
  qed
qed

lemma grows_pure [simp]: "grows w (r, w)"
  by (simp add: grows_def)

lemma grows_apply_val: "grows w (apply_val eng f args w)"
  by (simp add: step_ok_grows step_ok_apply_val)

lemma sim_eval:
  "reqs wa = reqs w \<Longrightarrow> sim (\<lambda>v u. u = erase v) (eval eng env e w) (eval blank (erase_env env) e wa)"
  "reqs wa = reqs w \<Longrightarrow>
   sim (\<lambda>vs us. us = map erase vs) (eval_args eng env es w) (eval_args blank (erase_env env) es wa)"
proof (induction eng env e w and eng env es w arbitrary: wa and wa rule: eval_eval_args.induct)
  case (1 eng env x w)
  then show ?case by (cases "env x") (simp_all add: erase_env_def sim_def)
next
  case (5 eng env e a w)
  show ?case
    unfolding eval.simps
    by (rule sim_and_then[OF 5(1)[OF 5(2)]])
       (simp_all add: sim_pure pure_get_attr erase_get_attr)
next
  case (6 eng env e i w)
  show ?case
    unfolding eval.simps
    apply (rule sim_and_then[OF 6(1)[OF 6(3)]])
     apply (rule sim_and_then[OF 6(2)])
       apply (simp_all add: sim_pure pure_get_item erase_get_item grows_and_then grows_eval)
    done
next
  case (7 eng env a b w)
  show ?case
    unfolding eval.simps
    apply (rule sim_and_then[OF 7(1)[OF 7(3)]])
     apply (rule sim_and_then[OF 7(2)])
       apply (simp_all add: sim_pure pure_py_add erase_py_add grows_and_then grows_eval)
    done
next
  case (8 eng env k e w)
  show ?case
    unfolding eval.simps
    by (rule sim_and_then[OF 8(1)[OF 8(2)]]) (simp_all add: sim_def)
next
  case (9 eng env f args w)
  show ?case
    unfolding eval.simps
    apply (rule sim_and_then[OF 9(1)[OF 9(3)]])
     apply (rule sim_and_then[OF 9(2)])
       apply (simp_all add: sim_apply_val grows_and_then grows_eval grows_apply_val)
    done
next
  case (11 eng env e es w)
  show ?case
    unfolding eval_args.simps
    apply (rule sim_and_then[OF 11(1)[OF 11(3)]])
     apply (rule sim_and_then[OF 11(2)])
       apply (simp_all add: sim_def grows_and_then grows_eval)
    done
qed (simp_all add: sim_def)

lemma erase_env_upd [simp]: "erase_env (env(x \<mapsto> v)) = (erase_env env)(x \<mapsto> erase v)"
  by (auto simp: erase_env_def)

lemma erase_env_empty [simp]: "erase_env Map.empty = Map.empty"
  by (auto simp: erase_env_def)

lemma erase_module_member:
  "(module_member cfg m n :: (unit, unit, unit) val option) =
   map_option erase (module_member cfg m n :: ('c, 's, 'd) val option)"
  by (simp add: module_member_def)

lemma erase_import_from:
  "import_from cfg m ns (erase_env env) = map_sum id erase_env (import_from cfg m ns env)"
proof (induction ns arbitrary: env)
  case Nil
  then show ?case by simp
next
  case (Cons n ns)
  show ?case
  proof (cases "module_member cfg m n :: ('a, 'b, 'c) val option")
    case None
    then show ?thesis using erase_module_member[of cfg m n, where ?'c = 'a and ?'s = 'b and ?'d = 'c]
      by simp
  next
    case (Some v)
    have mm: "(module_member cfg m n :: (unit, unit, unit) val option) = Some (erase v)"
      using Some erase_module_member[of cfg m n, where ?'c = 'a and ?'s = 'b and ?'d = 'c] by simp
    have "import_from cfg m (n # ns) (erase_env env) =
          import_from cfg m ns (erase_env (env(n \<mapsto> v)))"
      using mm by simp
    also have "\<dots> = map_sum id erase_env (import_from cfg m ns (env(n \<mapsto> v)))"
      by (rule Cons)
    also have "\<dots> = map_sum id erase_env (import_from cfg m (n # ns) env)"
      using Some by simp
    finally show ?thesis .
  qed
qed

lemma sim_exec:
  assumes "reqs wa = reqs w"
  shows "sim (\<lambda>e1 e2. e2 = erase_env e1) (exec cfg eng s env w) (exec cfg blank s (erase_env env) wa)"
proof (cases s)
  case (ImportFrom m ns)
  then show ?thesis using assms
    by (simp add: sim_pure pure_import_from erase_import_from)
next
  case (ImportAs m a)
  then show ?thesis using assms by (simp add: sim_def)
next
  case (Assign x e)
  show ?thesis unfolding Assign exec.simps
    by (rule sim_and_then[OF sim_eval(1)[OF assms]]) (simp_all add: sim_def)
next
  case (Expr e)
  show ?thesis unfolding Expr exec.simps
    by (rule sim_and_then[OF sim_eval(1)[OF assms]]) (simp_all add: sim_def)
qed

lemma grows_exec_all: "grows w (exec_all cfg eng ss env w)"
  by (simp add: step_ok_grows step_ok_exec_all)

lemma sim_exec_all:
  "reqs wa = reqs w \<Longrightarrow>
   sim (\<lambda>e1 e2. e2 = erase_env e1) (exec_all cfg eng ss env w) (exec_all cfg blank ss (erase_env env) wa)"
proof (induction ss arbitrary: env w wa)
  case Nil
  then show ?case by (simp add: sim_def)
next
  case (Cons s ss)
  show ?case
    unfolding exec_all.simps
    by (rule sim_and_then[OF sim_exec[OF Cons.prems]]) (simp_all add: Cons.IH grows_exec_all)
qed

lemma step_ok_trace: "step_ok w c \<Longrightarrow> \<exists>new. trace (snd c) = trace w @ new"
  by (auto simp: step_ok_def effects_def)

lemma ni_and_then:
  assumes "ni R w c1 c2" 
      and "\<And>v1 v2 u1 u2. R v1 v2 \<Longrightarrow> same_out u1 u2 \<Longrightarrow> ni R' u1 (k1 v1 u1) (k2 v2 u2)"
      and "step_ok w c1" "\<And>v u. step_ok u (k1 v u)"
  shows "ni R' w (and_then c1 k1) (and_then c2 k2)"
proof -
  obtain r1 u1 where c1: "c1 = (r1, u1)" by (cases c1)
  obtain r2 u2 where c2: "c2 = (r2, u2)" by (cases c2)
  from assms(3) c1 obtain new1 where new1: "trace u1 = trace w @ new1"
    by (auto dest: step_ok_trace)
  have ext: "\<exists>new2. trace (snd (and_then c1 k1)) = trace u1 @ new2"
  proof (cases r1)
    case (Inl x)
    then show ?thesis using c1 by simp
  next
    case (Inr v)
    then show ?thesis using c1 step_ok_trace[OF assms(4)[of u1 v]] by simp
  qed
  show ?thesis
  proof (cases "\<exists>e \<in> set new1. is_load (fst e)")
    case True
    then show ?thesis using ext new1 by (auto simp: ni_def)
  next
    case False
    with assms(1) c1 c2 new1 have rel: "rel_sum (=) R r1 r2" and so: "same_out u1 u2"
      by (auto simp: ni_def)
    show ?thesis
    proof (cases r1)
      case (Inl x)
      with rel have "r2 = Inl x" by (cases r2) auto
      with Inl c1 c2 so show ?thesis by (simp add: ni_def)
    next
      case (Inr v1)
      with rel obtain v2 where v2: "r2 = Inr v2" "R v1 v2" by (cases r2) auto
      have sub: "set (drop (length (trace u1)) (trace (snd (k1 v1 u1)))) \<subseteq>
                 set (drop (length (trace w)) (trace (snd (k1 v1 u1))))"
        using new1 by (intro set_drop_subset_set_drop) simp
      have "ni R' u1 (k1 v1 u1) (k2 v2 u2)" using assms(2) v2(2) so by blast
      then show ?thesis using c1 c2 Inr v2(1) sub unfolding ni_def by auto
    qed
  qed
qed

lemma ni_same:
  assumes "same_out w1 w2" "rel_sum (=) R r1 r2"
  shows "ni R w1 (r1, w1) (r2, w2)"
  using assms by (simp add: ni_def)

lemma rel_sum_eq_refl [simp]: "rel_sum (=) (=) r r"
  by (cases r) simp_all

lemma ni_methods:
  assumes "same_out w1 w2"
  shows "ni (=) w1 (method_get_connection eng args w1) (method_get_connection eng args w2)"
    and "ni (=) w1 (method_get_spark_session eng c args w1) (method_get_spark_session eng c args w2)"
    and "ni (=) w1 (method_csv eng s args w1) (method_csv eng s args w2)"
    and "ni (=) w1 (method_stop eng s args w1) (method_stop eng s args w2)"
    and "ni (=) w1 (method_withColumn eng d args w1) (method_withColumn eng d args w2)"
    and "ni (=) w1 (method_select eng d args w1) (method_select eng d args w2)"
    and "ni (=) w1 (method_printSchema eng d args w1) (method_printSchema eng d args w2)"
    and "ni (=) w1 (method_show eng d args w1) (method_show eng d args w2)"
    and "ni (=) w1 (method_head eng d args w1) (method_head eng d args w2)"
    and "ni (=) w1 (method_write_csv eng d args w1) (method_write_csv eng d args w2)"
    and "ni (=) w1 (method_alias cl args w1) (method_alias cl args w2)"
  using assms
  by (auto simp add: method_get_connection_def method_get_spark_session_def method_csv_def
        method_stop_def method_withColumn_def method_select_def method_printSchema_def
        method_show_def method_head_def method_write_csv_def method_alias_def
        engine_call_def ni_def same_out_def
        split: list.split option.split sum.split)

lemma ni_call_method:
  assumes "same_out w1 w2"
  shows "ni (=) w1 (call_method eng recv m args w1) (call_method eng recv m args w2)"
  using assms
  by (cases recv)
     (simp_all add: call_method_def dataframe_method_def ni_methods, simp_all add: ni_def)

lemma ni_apply_val:
  assumes "same_out w1 w2"
  shows "ni (=) w1 (apply_val eng f args w1) (apply_val eng f args w2)"
proof (cases f)
  case (VMethod recv m)
  then show ?thesis using assms by (simp add: apply_val_def ni_call_method)
qed (use assms in \<open>simp_all add: apply_val_def ni_def\<close>)

lemma ni_eval:
  "agree X env env2 \<Longrightarrow> set (names e) \<inter> X = {} \<Longrightarrow> same_out w w2 \<Longrightarrow>
   ni (=) w (eval eng env e w) (eval eng env2 e w2)"
  "agree X env env2 \<Longrightarrow> set (names_list es) \<inter> X = {} \<Longrightarrow> same_out w w2 \<Longrightarrow>
   ni (=) w (eval_args eng env es w) (eval_args eng env2 es w2)"
proof (induction eng env e w and eng env es w arbitrary: w2 and w2 rule: eval_eval_args.induct)
  case (1 eng env x w)
  then have "env x = env2 x" by (auto simp: agree_def)
  then show ?case using 1 by (cases "env2 x") (simp_all add: ni_def)
next
  case (5 eng env e a w)
  show ?case
    unfolding eval.simps
    by (rule ni_and_then[OF 5(1)])
       (use 5 in \<open>simp_all add: ni_def step_ok_eval step_ok_pure pure_get_attr\<close>)
next
  case (6 eng env e i w)
  have n1: "set (names e) \<inter> X = {}" and n2: "set (names i) \<inter> X = {}" using 6(4) by auto
  show ?case
    unfolding eval.simps
  proof (rule ni_and_then)
    show "ni (=) w (eval eng env e w) (eval eng env2 e w2)" by (rule 6(1)[OF 6(3) n1 6(5)])
  next
    fix v1 v2 :: "('a, 'b, 'c) val" and u1 u2
    assume eq: "v1 = v2" and so: "same_out u1 u2"
    show "ni (=) u1 (and_then (eval eng env i u1) (\<lambda>k w2. (get_item v1 k, w2)))
            (and_then (eval eng env2 i u2) (\<lambda>k w2. (get_item v2 k, w2)))"
      by (rule ni_and_then[OF 6(2)[OF 6(3) n2 so]])
         (simp_all add: eq ni_def step_ok_eval step_ok_pure pure_get_item)
  qed (simp_all add: step_ok_eval step_ok_and_then step_ok_pure pure_get_item)
next
  case (7 eng env a b w)
  have n1: "set (names a) \<inter> X = {}" and n2: "set (names b) \<inter> X = {}" using 7(4) by auto
  show ?case
    unfolding eval.simps
  proof (rule ni_and_then)
    show "ni (=) w (eval eng env a w) (eval eng env2 a w2)" by (rule 7(1)[OF 7(3) n1 7(5)])
  next
    fix v1 v2 :: "('a, 'b, 'c) val" and u1 u2
    assume eq: "v1 = v2" and so: "same_out u1 u2"
    show "ni (=) u1 (and_then (eval eng env b u1) (\<lambda>u w2. (py_add v1 u, w2)))
            (and_then (eval eng env2 b u2) (\<lambda>u w2. (py_add v2 u, w2)))"
      by (rule ni_and_then[OF 7(2)[OF 7(3) n2 so]])
         (simp_all add: eq ni_def step_ok_eval step_ok_pure pure_py_add)
  qed (simp_all add: step_ok_eval step_ok_and_then step_ok_pure pure_py_add)
next
  case (8 eng env k e w)
  show ?case
    unfolding eval.simps
    by (rule ni_and_then[OF 8(1)]) (use 8 in \<open>simp_all add: ni_def step_ok_eval step_ok_pure\<close>)
next
  case (9 eng env f args w)
  have n1: "set (names f) \<inter> X = {}" and n2: "set (names_list args) \<inter> X = {}"
    using 9(4) by auto
  show ?case
    unfolding eval.simps
  proof (rule ni_and_then)
    show "ni (=) w (eval eng env f w) (eval eng env2 f w2)" by (rule 9(1)[OF 9(3) n1 9(5)])
  next
    fix v1 v2 :: "('a, 'b, 'c) val" and u1 u2
    assume eq: "v1 = v2" and so: "same_out u1 u2"
    show "ni (=) u1 (and_then (eval_args eng env args u1) (\<lambda>vs w2. apply_val eng v1 vs w2))
            (and_then (eval_args eng env2 args u2) (\<lambda>vs w2. apply_val eng v2 vs w2))"
      by (rule ni_and_then[OF 9(2)[OF 9(3) n2 so]])
         (simp_all add: eq ni_apply_val step_ok_eval step_ok_apply_val)
  qed (simp_all add: step_ok_eval step_ok_and_then step_ok_apply_val)
next
  case (11 eng env e es w)
  have n1: "set (names e) \<inter> X = {}" and n2: "set (names_list es) \<inter> X = {}"
    using 11(4) by auto
  show ?case
    unfolding eval_args.simps
  proof (rule ni_and_then)
    show "ni (=) w (eval eng env e w) (eval eng env2 e w2)" by (rule 11(1)[OF 11(3) n1 11(5)])
  next
    fix v1 v2 :: "('a, 'b, 'c) val" and u1 u2
    assume eq: "v1 = v2" and so: "same_out u1 u2"
    show "ni (=) u1 (and_then (eval_args eng env es u1) (\<lambda>vs w2. (Inr (v1 # vs), w2)))
            (and_then (eval_args eng env2 es u2) (\<lambda>vs w2. (Inr (v2 # vs), w2)))"
      by (rule ni_and_then[OF 11(2)[OF 11(3) n2 so]])
         (simp_all add: eq ni_def step_ok_eval step_ok_pure)
  qed (simp_all add: step_ok_eval step_ok_and_then step_ok_pure)
qed (simp_all add: ni_def)

lemma agree_upd: "agree X env1 env2 \<Longrightarrow> agree X (env1(x \<mapsto> v)) (env2(x \<mapsto> v))"
  by (simp add: agree_def)

lemma agree_import_from:
  "agree X env1 env2 \<Longrightarrow>
   rel_sum (=) (agree X) (import_from cfg m ns env1) (import_from cfg m ns env2)"
proof (induction ns arbitrary: env1 env2)
  case Nil
  then show ?case by simp
next
  case (Cons n ns)
  show ?case
  proof (cases "module_member cfg m n :: ('a, 'b, 'c) val option")
    case None
    then show ?thesis by simp
  next
    case (Some v)
    have "agree X (env1(n \<mapsto> v)) (env2(n \<mapsto> v))" by (rule agree_upd[OF Cons.prems])
    then have "rel_sum (=) (agree X) (import_from cfg m ns (env1(n \<mapsto> v)))
                 (import_from cfg m ns (env2(n \<mapsto> v)))"
      by (rule Cons.IH)
    moreover have "import_from cfg m (n # ns) env1 = import_from cfg m ns (env1(n \<mapsto> v))"
      and "import_from cfg m (n # ns) env2 = import_from cfg m ns (env2(n \<mapsto> v))"
      using Some by simp_all
    ultimately show ?thesis by (simp only:)
  qed
qed

lemma ni_exec:
  assumes "agree X env1 env2" "set (reads_names s) \<inter> X = {}" "same_out w1 w2"
  shows "ni (agree X) w1 (exec cfg eng s env1 w1) (exec cfg eng s env2 w2)"
proof (cases s)
  case (ImportFrom m ns)
  then show ?thesis using assms by (simp add: ni_def agree_import_from)
next
  case (ImportAs m a)
  then show ?thesis using assms by (simp add: ni_def agree_upd)
next
  case (Assign x e)
  show ?thesis unfolding Assign exec.simps
    by (rule ni_and_then[OF ni_eval(1)])
       (use assms Assign in \<open>simp_all add: ni_def agree_upd step_ok_eval step_ok_pure\<close>)
next
  case (Expr e)
  show ?thesis unfolding Expr exec.simps
    by (rule ni_and_then[OF ni_eval(1)])
       (use assms Expr in \<open>simp_all add: ni_def step_ok_eval step_ok_pure\<close>)
qed

lemma ni_exec_all:
  "agree X env1 env2 \<Longrightarrow> set (concat (map reads_names ss)) \<inter> X = {} \<Longrightarrow> same_out w1 w2 \<Longrightarrow>
   ni (agree X) w1 (exec_all cfg eng ss env1 w1) (exec_all cfg eng ss env2 w2)"
proof (induction ss arbitrary: env1 env2 w1 w2)
  case Nil
  then show ?case by (simp add: ni_def)
next
  case (Cons s ss)
  have n1: "set (reads_names s) \<inter> X = {}" and n2: "set (concat (map reads_names ss)) \<inter> X = {}"
    using Cons.prems(2) by auto
  show ?case
    unfolding exec_all.simps
  proof (rule ni_and_then[OF ni_exec[OF Cons.prems(1) n1 Cons.prems(3)]])
    fix v1 v2 :: "string \<rightharpoonup> ('a, 'b, 'c) val" and u1 u2
    assume "agree X v1 v2" "same_out u1 u2"
    then show "ni (agree X) u1 (exec_all cfg eng ss v1 u1) (exec_all cfg eng ss v2 u2)"
      by (rule Cons.IH[OF _ n2])
  qed (simp_all add: step_ok_exec step_ok_exec_all)
qed

lemmas unfold_all = script_def setup_part_def arrays_part_def maps_part_def
  structs_part_def cleanup_part_def init_def engine_call_def method_get_connection_def
  method_get_spark_session_def method_csv_def method_stop_def method_withColumn_def
  method_select_def method_printSchema_def method_show_def method_head_def method_write_csv_def
  method_alias_def dataframe_method_def call_method_def apply_val_def call_function_def
  fn_col_def fn_lit_def fn_columns_def fn_column_def fn_sort_array_def fn_array_contains_def
  get_attr_def get_item_def py_add_def module_member_def functions_library_def flag_def

lemma blank_run:
  "\<exists>env w. run cfg blank sto = (Inr env, w) \<and> map fst (trace w) = plan cfg"
  by (simp add: run_def unfold_all plan_def)

lemma reqs_init [simp]: "reqs (init sto) = []"
  by (simp add: reqs_def init_def)

lemma run_shape:
  "(\<exists>env. fst (run cfg eng sto) = Inr env \<and> reqs (snd (run cfg eng sto)) = plan cfg) \<or>
   (\<exists>f. fst (run cfg eng sto) = Inl (EngineFault f) \<and>
        prefix (reqs (snd (run cfg eng sto))) (plan cfg))"
proof -
  obtain enva wa where a: "run cfg blank sto = (Inr enva, wa)" "reqs wa = plan cfg"
    using blank_run[of cfg sto] by (auto simp: reqs_def)
  have "sim (\<lambda>e1 e2. e2 = erase_env e1) (run cfg eng sto) (run cfg blank sto)"
    unfolding run_def using sim_exec_all[of "init sto" "init sto" cfg eng script Map.empty]
    by simp
  then show ?thesis using a
    by (auto simp: sim_def split: sum.splits error.splits)
qed

lemma run_effects:
  "effects (init sto) (snd (run cfg eng sto)) (trace (snd (run cfg eng sto))) \<and>
   disciplined (fst (run cfg eng sto)) (trace (snd (run cfg eng sto)))"
proof -
  have "step_ok (init sto) (run cfg eng sto)"
    unfolding run_def by (rule step_ok_exec_all)
  then obtain new where n: "effects (init sto) (snd (run cfg eng sto)) new"
      "disciplined (fst (run cfg eng sto)) new"
    by (auto simp: step_ok_def)
  then have "trace (snd (run cfg eng sto)) = new" by (simp add: effects_def init_def)
  with n show ?thesis by simp
qed

lemma run_prefix:
  "map fst (trace (snd (run cfg eng sto))) = take (length (trace (snd (run cfg eng sto)))) (plan cfg)"
proof -
  have "prefix (reqs (snd (run cfg eng sto))) (plan cfg)"
    using run_shape[of cfg eng sto] by auto
  then obtain zs where "plan cfg = reqs (snd (run cfg eng sto)) @ zs"
    by (auto simp: prefix_def)
  then have "take (length (reqs (snd (run cfg eng sto)))) (plan cfg) = reqs (snd (run cfg eng sto))"
    by simp
  then show ?thesis by (simp add: reqs_def)
qed

lemma run_complete:
  assumes "fst (run cfg eng sto) = Inr env"
  shows "map fst (trace (snd (run cfg eng sto))) = plan cfg"
  using run_shape[of cfg eng sto] assms by (auto simp: reqs_def)

lemma run_raises:
  assumes "fst (run cfg eng sto) = Inl err"
  shows "\<exists>f. err = EngineFault f"
  using run_shape[of cfg eng sto] assms by auto

lemma run_answered:
  "list_all (\<lambda>e. snd e = None) (butlast (trace (snd (run cfg eng sto))))"
  using run_effects[of sto cfg eng]
  by (auto simp: disciplined_def list_all_iff split: sum.splits error.splits dest: in_set_butlastD)

lemma run_trace_nonempty: "trace (snd (run cfg eng sto)) \<noteq> []"
proof (cases "fst (run cfg eng sto)")
  case (Inl err)
  then show ?thesis using run_raises[OF Inl] run_effects[of sto cfg eng]
    by (auto simp: disciplined_def)
next
  case (Inr env)
  then show ?thesis using run_complete[OF Inr] by (auto simp: plan_def)
qed

lemma run_last:
  "(case snd (last (trace (snd (run cfg eng sto)))) of
      Some f \<Rightarrow> fst (run cfg eng sto) = Inl (EngineFault f)
    | None \<Rightarrow> (\<exists>env. fst (run cfg eng sto) = Inr env))"
proof (cases "fst (run cfg eng sto)")
  case (Inl err)
  then obtain f where "err = EngineFault f" using run_raises by blast
  then show ?thesis using Inl run_effects[of sto cfg eng] by (auto simp: disciplined_def)
next
  case (Inr env)
  have "list_all (\<lambda>e. snd e = None) (trace (snd (run cfg eng sto)))"
    using Inr run_effects[of sto cfg eng] by (auto simp: disciplined_def)
  then have "snd (last (trace (snd (run cfg eng sto)))) = None"
    using run_trace_nonempty[of cfg eng sto] by (auto simp: list_all_iff)
  then show ?thesis using Inr by simp
qed
lemma in_set_butlast_or_last: "x \<in> set xs \<Longrightarrow> x \<in> set (butlast xs) \<or> x = last xs"
  by (induction xs) auto

lemma prefix_butlast:
  assumes "prefix xs ys"
  shows "prefix (butlast xs) (butlast ys)"
proof -
  from assms obtain zs where ys: "ys = xs @ zs" by (auto simp: prefix_def)
  show ?thesis
  proof (cases zs)
    case Nil
    with ys show ?thesis by simp
  next
    case (Cons z zs')
    have "prefix (butlast xs) xs" by (rule prefixeq_butlast)
    moreover have "prefix xs (butlast ys)" using ys Cons by (simp add: butlast_append)
    ultimately show ?thesis by (rule prefix_order.trans)
  qed
qed

lemma run_stopped:
  "stopped (snd (run cfg eng sto)) = (\<exists>env. fst (run cfg eng sto) = Inr env)"
proof -
  let ?c = "run cfg eng sto"
  let ?t = "trace (snd ?c)"
  have eff: "effects (init sto) (snd ?c) ?t" and dis: "disciplined (fst ?c) ?t"
    using run_effects[of sto cfg eng] by simp_all
  have st: "stopped (snd ?c) = ((Stop, None) \<in> set ?t)"
    using eff by (simp add: effects_def init_def)
  show ?thesis
  proof (cases "fst ?c")
    case (Inr env)
    have all: "list_all (\<lambda>e. snd e = None) ?t" using dis Inr by (simp add: disciplined_def)
    have m: "map fst ?t = plan cfg" by (rule run_complete[OF Inr])
    have ne: "?t \<noteq> []" by (rule run_trace_nonempty)
    have "fst (last ?t) = last (map fst ?t)" using ne by (simp add: last_map)
    also have "\<dots> = Stop" unfolding m by (simp add: plan_def)
    finally have "fst (last ?t) = Stop" .
    moreover have "snd (last ?t) = None" using all ne by (auto simp: list_all_iff)
    ultimately have "last ?t = (Stop, None)" by (simp add: prod_eq_iff)
    then have "(Stop, None) \<in> set ?t" using last_in_set[OF ne] by simp
    then show ?thesis using st Inr by simp
  next
    case (Inl err)
    then obtain f where f: "err = EngineFault f" using run_raises by blast
    have ne: "?t \<noteq> []" and lst: "snd (last ?t) = Some f"
      using dis Inl f by (simp_all add: disciplined_def)
    have "prefix (map fst ?t) (plan cfg)"
      using run_shape[of cfg eng sto] Inl by (auto simp: reqs_def)
    then have "prefix (butlast (map fst ?t)) (butlast (plan cfg))" by (rule prefix_butlast)
    then have "set (butlast (map fst ?t)) \<subseteq> set (butlast (plan cfg))" by (rule set_mono_prefix)
    moreover have "Stop \<notin> set (butlast (plan cfg))" by (simp add: plan_def)
    ultimately have nb: "Stop \<notin> set (butlast (map fst ?t))" by blast
    have "(Stop, None) \<notin> set ?t"
    proof
      assume a: "(Stop, None) \<in> set ?t"
      have "(Stop, None) \<in> set (butlast ?t) \<or> (Stop, None) = last ?t"
        using a by (rule in_set_butlast_or_last)
      moreover have "(Stop, None) \<noteq> last ?t"
      proof
        assume "(Stop, None) = last ?t"
        then have "snd (last ?t) = None" by (metis snd_conv)
        with lst show False by simp
      qed
      ultimately have "(Stop, None) \<in> set (butlast ?t)" by blast
      then have "Stop \<in> fst ` set (butlast ?t)" by force
      then have "Stop \<in> set (butlast (map fst ?t))" by (simp add: map_butlast[symmetric])
      with nb show False by contradiction
    qed
    then show ?thesis using st Inl by simp
  qed
qed

lemma toy_run: "\<exists>env w. run toy_cfg toy toy_store = (Inr env, w)"
  by (simp add: run_def unfold_all toy_def toy_cfg_def toy_store_def)

lemma prefix_take: "prefix xs ys \<Longrightarrow> xs = take (length xs) ys"
  by (auto simp: prefix_def)

lemma run_requests_prefix: "prefix (map fst (trace (snd (run cfg eng sto)))) (plan cfg)"
  using run_shape[of cfg eng sto] by (auto simp: reqs_def)

lemma prefix_row_counts: "prefix xs ys \<Longrightarrow> prefix (row_counts xs) (row_counts ys)"
proof -
  have app: "row_counts (xs @ zs) = row_counts xs @ row_counts zs" for zs
    by (induction xs rule: row_counts.induct) simp_all
  assume "prefix xs ys"
  then show ?thesis by (auto simp: prefix_def app)
qed

lemma prefix_replicate: "prefix xs (replicate n a) \<Longrightarrow> xs = replicate (length xs) a"
proof -
  assume "prefix xs (replicate n a)"
  then have "set xs \<subseteq> set (replicate n a)" by (rule set_mono_prefix)
  then have "\<forall>x \<in> set xs. x = a" by auto
  then show ?thesis by (simp add: replicate_length_same)
qed

lemma run_requests_subset: "set (map fst (trace (snd (run cfg eng sto)))) \<subseteq> set (plan cfg)"
  using run_requests_prefix[of cfg eng sto] by (rule set_mono_prefix)


section \<open>The claims\<close>



text \<open>
  C2. The load requests of every run are a prefix of the three loads of \<open>loads\<close>:
  rides, drivers and riders, each at a path that starts with \<open>S3_ROOT\<close>, each with
  header and schema inference on; a run that completes has sent exactly these three.
  In the source, the calls of \<^verbatim>\<open>csv\<close> are these three, with \<^verbatim>\<open>header=True\<close> and
  \<^verbatim>\<open>inferSchema=True\<close> written out.
\<close>

theorem three_loads:
  "filter is_load (map fst (trace (snd (run cfg eng sto)))) =
     take (length (filter is_load (map fst (trace (snd (run cfg eng sto)))))) (loads cfg) \<and>
   ((\<exists>env. fst (run cfg eng sto) = Inr env) \<longrightarrow>
      filter is_load (map fst (trace (snd (run cfg eng sto)))) = loads cfg) \<and>
   concat (map (\<lambda>s. calls_list ''csv'' (exprs_of s)) script) =
     map (\<lambda>dir. [Add (Name ''S3_ROOT'') (Str dir), Kw ''header'' (Const True),
                 Kw ''inferSchema'' (Const True)])
       [''/duocar/raw/rides/'', ''/duocar/raw/drivers/'', ''/duocar/raw/riders/'']"
proof -
  let ?t = "map fst (trace (snd (run cfg eng sto)))"
  have l: "filter is_load (plan cfg) = loads cfg" by (simp add: plan_def loads_def)
  have "prefix (filter is_load ?t) (filter is_load (plan cfg))"
    using run_requests_prefix[of cfg eng sto] by (rule filter_mono_prefix)
  then have 1: "filter is_load ?t = take (length (filter is_load ?t)) (loads cfg)"
    unfolding l by (rule prefix_take)
  have 2: "(\<exists>env. fst (run cfg eng sto) = Inr env) \<longrightarrow> filter is_load ?t = loads cfg"
    using run_complete[of cfg eng sto] l by auto
  have 3: "concat (map (\<lambda>s. calls_list ''csv'' (exprs_of s)) script) =
     map (\<lambda>dir. [Add (Name ''S3_ROOT'') (Str dir), Kw ''header'' (Const True),
                 Kw ''inferSchema'' (Const True)])
       [''/duocar/raw/rides/'', ''/duocar/raw/drivers/'', ''/duocar/raw/riders/'']"
    by (simp add: script_def setup_part_def arrays_part_def maps_part_def structs_part_def
        cleanup_part_def)
  from 1 2 3 show ?thesis by blast
qed

text \<open>
  Witness for C2: on the toy engine the run completes and has sent the three loads.
\<close>

theorem three_loads_witness:
  "filter is_load (map fst (trace (snd (run toy_cfg toy toy_store)))) = loads toy_cfg"
  using three_loads[of toy_cfg toy toy_store] toy_run by auto

text \<open>
  C3. Every request for sample rows that a run sends asks for 5 rows; a run that
  completes has sent 17 of them. In the source, each of the 17 calls of \<^verbatim>\<open>show\<close> and
  \<^verbatim>\<open>head\<close> has the literal 5 as its first argument.
\<close>

theorem five_rows:
  "row_counts (map fst (trace (snd (run cfg eng sto)))) =
     replicate (length (row_counts (map fst (trace (snd (run cfg eng sto)))))) 5 \<and>
   ((\<exists>env. fst (run cfg eng sto) = Inr env) \<longrightarrow>
      length (row_counts (map fst (trace (snd (run cfg eng sto))))) = 17) \<and>
   map (take 1)
     (concat (map (\<lambda>s. calls_list ''show'' (exprs_of s) @ calls_list ''head'' (exprs_of s)) script)) =
     replicate 17 [Num 5]"
proof -
  let ?t = "map fst (trace (snd (run cfg eng sto)))"
  have p: "row_counts (plan cfg) = replicate 17 5" by (simp add: plan_def eval_nat_numeral)
  have "prefix (row_counts ?t) (row_counts (plan cfg))"
    using run_requests_prefix[of cfg eng sto] by (rule prefix_row_counts)
  then have 1: "row_counts ?t = replicate (length (row_counts ?t)) 5"
    unfolding p by (rule prefix_replicate)
  have 2: "(\<exists>env. fst (run cfg eng sto) = Inr env) \<longrightarrow> length (row_counts ?t) = 17"
    using run_complete[of cfg eng sto] p by auto
  have 3: "map (take 1)
     (concat (map (\<lambda>s. calls_list ''show'' (exprs_of s) @ calls_list ''head'' (exprs_of s)) script)) =
     replicate 17 [Num 5]"
    by (simp add: script_def setup_part_def arrays_part_def maps_part_def structs_part_def
        cleanup_part_def eval_nat_numeral)
  from 1 2 3 show ?thesis by blast
qed

text \<open>
  Witness for C3: on the toy engine the run completes with 17 requests for sample rows.
\<close>

theorem five_rows_witness:
  "length (row_counts (map fst (trace (snd (run toy_cfg toy toy_store))))) = 17"
  using five_rows[of toy_cfg toy toy_store] toy_run by auto

text \<open>
  C4. The script handles no error: a run raises exactly when its last request to the
  engine faulted, and then it raises that fault unchanged; every earlier request was
  answered, so nothing is retried or recovered after a fault; a run raises nothing but
  an engine fault; and the first request is sent with the configured connection name
  whatever that name is, so nothing is validated first.
\<close>

theorem faults_propagate:
  "trace (snd (run cfg eng sto)) \<noteq> [] \<and>
   fst (hd (trace (snd (run cfg eng sto)))) = GetConnection (CONNECTION_NAME cfg) \<and>
   list_all (\<lambda>e. snd e = None) (butlast (trace (snd (run cfg eng sto)))) \<and>
   (case snd (last (trace (snd (run cfg eng sto)))) of
      Some f \<Rightarrow> fst (run cfg eng sto) = Inl (EngineFault f)
    | None \<Rightarrow> (\<exists>env. fst (run cfg eng sto) = Inr env))"
proof -
  let ?t = "trace (snd (run cfg eng sto))"
  have ne: "?t \<noteq> []" by (rule run_trace_nonempty)
  have "map fst ?t = take (length ?t) (plan cfg)" by (rule run_prefix)
  then have "hd (map fst ?t) = hd (take (length ?t) (plan cfg))" by simp
  moreover have "hd (take (length ?t) (plan cfg)) = hd (plan cfg)"
    using ne by (cases "length ?t") (simp_all add: plan_def)
  ultimately have "fst (hd ?t) = GetConnection (CONNECTION_NAME cfg)"
    using ne by (simp add: hd_map plan_def)
  then show ?thesis using ne run_answered[of cfg eng sto] run_last[of cfg eng sto] by simp
qed

text \<open>
  C5. The session is stopped exactly when the run completes: a run that raises
  leaves it running. The call of \<^verbatim>\<open>spark.stop()\<close> is the last statement of the script,
  no other statement mentions \<^verbatim>\<open>stop\<close>, and the connection and the session are the
  first two requests.
\<close>

theorem stop_only_on_success:
  "stopped (snd (run cfg eng sto)) = (\<exists>env. fst (run cfg eng sto) = Inr env) \<and>
   last script = Expr (Call (Attr (Name ''spark'') ''stop'') []) \<and>
   filter (\<lambda>s. ''stop'' \<in> set (attrs_list (exprs_of s))) (butlast script) = [] \<and>
   take 2 (plan cfg) = [GetConnection (CONNECTION_NAME cfg), GetSparkSession]"
  by (simp add: run_stopped)
     (simp add: script_def setup_part_def arrays_part_def maps_part_def structs_part_def
        cleanup_part_def plan_def butlast_append)



text \<open>
  C7. No run changes the object store or sends a write request; the console holds
  one line for each answered \<^verbatim>\<open>printSchema\<close> and \<^verbatim>\<open>show\<close> and nothing else; the
  source never touches the \<^verbatim>\<open>write\<close> attribute of a dataframe.
\<close>

theorem no_persisted_output:
  "store (snd (run cfg eng sto)) = sto \<and>
   filter is_write (map fst (trace (snd (run cfg eng sto)))) = [] \<and>
   length (console (snd (run cfg eng sto))) = length (filter prints (trace (snd (run cfg eng sto)))) \<and>
   filter (\<lambda>a. a = ''write'') (concat (map (\<lambda>s. attrs_list (exprs_of s)) script)) = []"
proof -
  let ?w = "snd (run cfg eng sto)"
  have eff: "effects (init sto) ?w (trace ?w)" using run_effects[of sto cfg eng] by simp
  have "filter is_write (plan cfg) = []" by (simp add: plan_def)
  then have nw: "\<forall>r \<in> set (plan cfg). \<not> is_write r" by (simp add: filter_empty_conv)
  then have nt: "\<forall>r \<in> set (map fst (trace ?w)). \<not> is_write r"
    using run_requests_subset[of cfg eng sto] by blast
  then have 2: "filter is_write (map fst (trace ?w)) = []" by (simp add: filter_empty_conv)
  have "\<forall>p. (WriteCsv p, None) \<notin> set (trace ?w)"
  proof (intro allI notI)
    fix p assume "(WriteCsv p, None) \<in> set (trace ?w)"
    then have "WriteCsv p \<in> set (map fst (trace ?w))" by force
    then have "\<not> is_write (WriteCsv p)" using nt by blast
    then show False by simp
  qed
  then have 1: "store ?w = sto" using eff by (simp add: effects_def init_def)
  have 3: "length (console ?w) = length (filter prints (trace ?w))"
    using eff by (simp add: effects_def init_def)
  have 4: "filter (\<lambda>a. a = ''write'') (concat (map (\<lambda>s. attrs_list (exprs_of s)) script)) = []"
    by (simp add: script_def setup_part_def arrays_part_def maps_part_def structs_part_def
        cleanup_part_def)
  show ?thesis by (intro conjI 1 2 3 4)
qed

end
